theory Spec2Isabelle
  imports Main "HOL-Library.Char_ord" "HOL-Library.List_Lexorder" "HOL-Library.AList"
begin

section \<open>JavaScript values\<close>

text \<open>
  The values that travel through the bands of a Thing.  Numbers are kept as integers
  (nothing below does arithmetic on them).  An array is a fresh object wherever the
  code builds one, so the strict comparison \<^verbatim>\<open>===\<close> of an array with anything is false.
\<close>

datatype jsval = JUndefined | JNull | JBool bool | JNum int | JStr string | JArr "jsval list"

fun strict_eq :: "jsval \<Rightarrow> jsval \<Rightarrow> bool" where
  "strict_eq (JArr xs) y = False"
| "strict_eq x (JArr ys) = False"
| "strict_eq x y = (x = y)"

fun truthy :: "jsval \<Rightarrow> bool" where
  "truthy JUndefined = False"
| "truthy JNull = False"
| "truthy (JBool b) = b"
| "truthy (JNum n) = (n \<noteq> 0)"
| "truthy (JStr s) = (s \<noteq> [])"
| "truthy (JArr xs) = True"

text \<open>A dictionary with its keys in insertion order.\<close>

type_synonym dict = "(string \<times> jsval) list"

definition dget :: "dict \<Rightarrow> string \<Rightarrow> jsval" where
  "dget d k = (case map_of d k of None \<Rightarrow> JUndefined | Some v \<Rightarrow> v)"

section \<open>Attributes and the Thing (model.js, attribute.js)\<close>

text \<open>
  An Attribute object: its code, its semantic properties (the keys a match dictionary
  is compared with), the answers of \<^verbatim>\<open>is_sensor()\<close>, \<^verbatim>\<open>is_actuator()\<close>, \<^verbatim>\<open>is_type_null()\<close>,
  the truth of \<^verbatim>\<open>_.ld.first(attribute, constants.iot_clear_value)\<close> and of
  \<^verbatim>\<open>attribute.force\<close>, and the four fields model.js keeps on it.
\<close>

record attribute =
  acode :: string
  props :: dict
  is_sensor :: bool
  is_actuator :: bool
  is_type_null :: bool
  iot_clear_value :: bool
  force :: bool
  ivalue :: jsval
  ovalue :: jsval
  ichanged :: bool
  ochanged :: bool

text \<open>
  The helpers of \<^verbatim>\<open>helpers.js\<close> and the constants of \<^verbatim>\<open>constants.js\<close> are not part of
  the sources at hand; the functions below take them as parameters: \<^verbatim>\<open>_.ld.expand\<close> on a
  string and on a dictionary, three constants, \<^verbatim>\<open>_.timestamp.add\<close> and
  \<^verbatim>\<open>_.timestamp.advance\<close> (each with the current time as its first argument) and
  \<^verbatim>\<open>_.timestamp.epoch()\<close>.  \<^verbatim>\<open>Attribute.prototype.validate_value\<close> is a parameter too: no
  property below is about the coercion of values, only about what an update does with
  the coerced value (\<^verbatim>\<open>undefined\<close> when the value is dropped).
\<close>

record helpers =
  ld_expand :: "string \<Rightarrow> string"
  ld_expand_d :: "dict \<Rightarrow> dict"
  iot_purpose :: string
  schema_name :: string
  iot_reachable :: string
  validate_value :: "attribute \<Rightarrow> jsval \<Rightarrow> jsval"
  timestamp_add :: "string \<Rightarrow> dict \<Rightarrow> dict"
  timestamp_advance :: "string \<Rightarrow> string option \<Rightarrow> string option"
  timestamp_epoch :: string

subsection \<open>Model.prototype.find\<close>

text \<open>
  The test of one attribute against the match dictionary (the loop over
  \<^verbatim>\<open>match_key\<close>).  Both \<^verbatim>\<open>break\<close>s leave \<^verbatim>\<open>all\<close> false for good, so the loop is
  a conjunction.
\<close>

definition index_of_absent :: "jsval list \<Rightarrow> jsval \<Rightarrow> bool" where
  "index_of_absent avs mv = (\<not> list_ex (\<lambda>e. strict_eq e mv) avs)"

fun match_all :: "helpers \<Rightarrow> attribute \<Rightarrow> dict \<Rightarrow> bool" where
  "match_all h a [] = True"
| "match_all h a ((match_key, match_value) # rest) =
     (if match_key = schema_name h then match_all h a rest
      else if take 1 match_key = ''@'' then match_all h a rest
      else (case dget (props a) match_key of
              JArr avs \<Rightarrow>
                (case match_value of
                   JArr mvs \<Rightarrow>
                     (if list_ex (index_of_absent avs) mvs then False else match_all h a rest)
                 | _ \<Rightarrow> (if index_of_absent avs match_value then False else match_all h a rest))
            | av \<Rightarrow> (if \<not> strict_eq match_value av then False else match_all h a rest)))"

text \<open>The loop that remembers the first sensor and the first actuator among the matches.\<close>

fun pick_matches ::
  "attribute list \<Rightarrow> attribute option \<Rightarrow> attribute option \<Rightarrow> attribute option \<times> attribute option"
where
  "pick_matches [] match_sensor match_actuator = (match_sensor, match_actuator)"
| "pick_matches (m # ms) match_sensor match_actuator =
     pick_matches ms
       (if match_sensor = None \<and> is_sensor m then Some m else match_sensor)
       (if match_actuator = None \<and> is_actuator m then Some m else match_actuator)"

definition matches_of :: "helpers \<Rightarrow> attribute list \<Rightarrow> dict \<Rightarrow> attribute list" where
  "matches_of h attrs find_key = filter (\<lambda>a. match_all h a find_key) attrs"

text \<open>The choice among the matches, at the end of \<^verbatim>\<open>find\<close>.\<close>

definition choose_match :: "attribute list \<Rightarrow> string \<Rightarrow> attribute option" where
  "choose_match matches mode =
     (if length matches = 1 then Some (hd matches)
      else (case pick_matches matches None None of
              (match_sensor, match_actuator) \<Rightarrow>
                if mode = ''set'' \<and> match_actuator \<noteq> None then match_actuator
                else if mode = ''get'' \<and> match_sensor \<noteq> None then match_sensor
                else if mode = ''on'' \<and> match_sensor \<noteq> None then match_sensor
                else if match_actuator \<noteq> None then match_actuator
                else if match_sensor \<noteq> None then match_sensor
                else (case matches of [] \<Rightarrow> None | m # ms \<Rightarrow> Some m)))"

definition find_dict ::
  "helpers \<Rightarrow> attribute list \<Rightarrow> dict \<Rightarrow> string \<Rightarrow> bool \<Rightarrow> attribute option"
where
  "find_dict h attrs find_key mode expand =
     choose_match (matches_of h attrs (if expand then ld_expand_d h find_key else find_key)) mode"

text \<open>
  A find key is a string or a dictionary (\<^verbatim>\<open>_.is.FindKey\<close>; anything else makes the
  callers throw before they reach \<^verbatim>\<open>find\<close>).
\<close>

datatype find_key = KString string | KDict dict

text \<open>
  \<^verbatim>\<open>find_key.replace(/\/+/, "").split("/")\<close> and its last element: the first run of
  slashes is removed, and the last key is what follows the last remaining slash.
\<close>

definition replace_slashes :: "string \<Rightarrow> string" where
  "replace_slashes s =
     takeWhile (\<lambda>c. c \<noteq> CHR ''/'') s @
     dropWhile (\<lambda>c. c = CHR ''/'') (dropWhile (\<lambda>c. c \<noteq> CHR ''/'') s)"

definition last_subkey :: "string \<Rightarrow> string" where
  "last_subkey s = rev (takeWhile (\<lambda>c. c \<noteq> CHR ''/'') (rev (replace_slashes s)))"

definition attributed :: "attribute list \<Rightarrow> string \<Rightarrow> attribute option" where
  "attributed attrs c = List.find (\<lambda>a. acode a = c) attrs"

fun find_attr ::
  "helpers \<Rightarrow> attribute list \<Rightarrow> find_key \<Rightarrow> string \<Rightarrow> attribute option"
where
  "find_attr h attrs (KString s) mode =
     (let last_key = last_subkey s in
      if take 1 last_key = '':'' then
        find_dict h attrs [(iot_purpose h, JStr (ld_expand h (''iot-purpose:'' @ drop 1 last_key)))]
          mode False
      else if CHR '':'' \<in> set last_key then
        find_dict h attrs [(iot_purpose h, JStr (ld_expand h last_key))] mode False
      else attributed attrs last_key)"
| "find_attr h attrs (KDict d) mode = find_dict h attrs d mode True"

subsection \<open>Model.prototype.get\<close>

text \<open>
  \<^verbatim>\<open>get\<close> answers \<^verbatim>\<open>undefined\<close> when the key resolves to nothing; \<^verbatim>\<open>find\<close> never
  returns a record without an attribute, so the "impossible state" exception has no
  branch here.
\<close>

definition get_value :: "helpers \<Rightarrow> attribute list \<Rightarrow> find_key \<Rightarrow> jsval" where
  "get_value h attrs k =
     (case find_attr h attrs k ''get'' of
        None \<Rightarrow> JUndefined
      | Some a \<Rightarrow>
          if ivalue a \<noteq> JNull then ivalue a
          else if ovalue a \<noteq> JNull then ovalue a
          else JNull)"

section \<open>Timestamps (helpers/timestamp.js)\<close>

text \<open>
  A band timestamp is an ISO-8601 string or absent.  In a dictionary it sits under the
  key \<^verbatim>\<open>@timestamp\<close>; a missing, empty or non-string entry counts as absent.
\<close>

fun ts_of :: "jsval \<Rightarrow> string option" where
  "ts_of (JStr s) = (if s = [] then None else Some s)"
| "ts_of v = None"

text \<open>
  Modelled from the spec: \<^verbatim>\<open>_.timestamp.check.values\<close>, the timestamp-conflict rule of
  \<^verbatim>\<open>helpers/timestamp.js\<close>, which is not among the sources.  The spec (4.3) gives it as
  \<^verbatim>\<open>shouldApply(storedTimestamp, incomingTimestamp)\<close>: both absent applies; stored
  absent and incoming present applies; stored present and incoming absent rejects; both
  present applies iff \<^verbatim>\<open>incoming >= stored\<close> in the lexicographic order of the strings.
\<close>

fun timestamp_check_values :: "string option \<Rightarrow> string option \<Rightarrow> bool" where
  "timestamp_check_values None None = True"
| "timestamp_check_values None (Some incoming) = True"
| "timestamp_check_values (Some stored) None = False"
| "timestamp_check_values (Some stored) (Some incoming) = (stored \<le> incoming)"

text \<open>
  Modelled from the spec: \<^verbatim>\<open>_.timestamp.check.dictionary\<close>, the same rule on the
  \<^verbatim>\<open>@timestamp\<close> entries of two dictionaries (the spec: "this rule is identical whether
  merging device metadata or input/output bands").
\<close>

definition timestamp_check_dictionary :: "dict \<Rightarrow> dict \<Rightarrow> bool" where
  "timestamp_check_dictionary od nd =
     timestamp_check_values (ts_of (dget od ''@timestamp'')) (ts_of (dget nd ''@timestamp''))"

section \<open>Options of an update\<close>

text \<open>
  The \<^verbatim>\<open>paramd\<close> dictionary of the update functions: an option the caller leaves out is
  \<^verbatim>\<open>None\<close>, and \<^verbatim>\<open>_.defaults\<close> fills it in.
\<close>

record paramd =
  add_timestamp :: "bool option"
  check_timestamp :: "bool option"
  set_timestamp :: "bool option"
  notify :: "bool option"
  validate :: "bool option"
  emit :: "bool option"

definition no_paramd :: paramd where
  "no_paramd = \<lparr>add_timestamp = None, check_timestamp = None, set_timestamp = None,
     notify = None, validate = None, emit = None\<rparr>"

definition dflt :: "bool option \<Rightarrow> bool \<Rightarrow> bool" where
  "dflt given d = (case given of None \<Rightarrow> d | Some b \<Rightarrow> b)"

section \<open>Metadata (meta.js)\<close>

text \<open>
  The state of a \<^verbatim>\<open>Meta\<close> object: its local updates \<^verbatim>\<open>_updated\<close>, the dictionary
  \<^verbatim>\<open>thing._metad\<close> that \<^verbatim>\<open>state()\<close> creates on first use and extends afterwards, the
  entries \<^verbatim>\<open>state()\<close> copies from the Thing and its Bridge (thing id, model id, name,
  facets, bridge and binding metadata), and the number of calls of
  \<^verbatim>\<open>thing.meta_changed()\<close> so far.
\<close>

record meta =
  meta_updated :: dict
  metad :: "dict option"
  thing_metad :: dict
  meta_changed_calls :: nat

text \<open>\<^verbatim>\<open>_.extend(a, b)\<close>: every entry of \<^verbatim>\<open>b\<close> is written into \<^verbatim>\<open>a\<close>.\<close>

definition extend_dict :: "dict \<Rightarrow> dict \<Rightarrow> dict" where
  "extend_dict a b = fold (\<lambda>(k, v) d. AList.update k v d) b a"

definition meta_state_dict :: "string \<Rightarrow> meta \<Rightarrow> dict" where
  "meta_state_dict epoch m =
     extend_dict
       (extend_dict (case metad m of None \<Rightarrow> [(''@timestamp'', JStr epoch)] | Some d \<Rightarrow> d)
          (thing_metad m))
       (meta_updated m)"

definition meta_state :: "string \<Rightarrow> meta \<Rightarrow> meta" where
  "meta_state epoch m = m\<lparr>metad := Some (meta_state_dict epoch m)\<rparr>"


text \<open>\<^verbatim>\<open>_.is.Equal\<close> is deep equality.\<close>

definition is_Equal :: "jsval \<Rightarrow> jsval \<Rightarrow> bool" where
  "is_Equal a b = (a = b)"

text \<open>The loop of \<^verbatim>\<open>Meta.prototype.update\<close> over the keys of the expanded dictionary.\<close>

fun meta_update_loop :: "helpers \<Rightarrow> dict \<Rightarrow> dict \<Rightarrow> dict \<Rightarrow> bool \<Rightarrow> dict \<times> bool" where
  "meta_update_loop h state [] upd changed = (upd, changed)"
| "meta_update_loop h state ((in_key, in_value) # rest) upd changed =
     (if in_key = iot_reachable h then meta_update_loop h state rest upd changed
      else if in_key = ''@timestamp'' then meta_update_loop h state rest upd changed
      else if is_Equal in_value (dget state in_key) then meta_update_loop h state rest upd changed
      else meta_update_loop h state rest (AList.update in_key in_value upd) True)"

text \<open>
  \<^verbatim>\<open>Meta.prototype.update\<close>.  The arguments \<^verbatim>\<open>epoch\<close> and \<^verbatim>\<open>now\<close> are what
  \<^verbatim>\<open>_.timestamp.epoch()\<close> and \<^verbatim>\<open>_.timestamp.make()\<close> return.  The result is the new
  state and the returned value: \<^verbatim>\<open>undefined\<close> when the timestamp check rejects,
  otherwise whether anything changed.
\<close>

definition meta_update_apply ::
  "helpers \<Rightarrow> string \<Rightarrow> string \<Rightarrow> meta \<Rightarrow> jsval \<Rightarrow> dict \<Rightarrow> paramd \<Rightarrow> meta \<times> jsval"
where
  "meta_update_apply h epoch now m in_timestamp ind p =
     (let m1 = meta_state epoch m;
          state = meta_state_dict epoch m
      in case meta_update_loop h state ind (meta_updated m1) False of
           (upd, changed) \<Rightarrow>
             (let upd1 =
                    (if changed \<and> dflt (set_timestamp p) False
                     then (if truthy in_timestamp
                           then AList.update ''@timestamp'' in_timestamp upd
                           else AList.update ''@timestamp'' (JStr now) upd)
                     else upd);
                  m2 = m1\<lparr>meta_updated := upd1\<rparr>
              in if changed
                 then ((if dflt (emit p) True
                        then m2\<lparr>meta_changed_calls := Suc (meta_changed_calls m2)\<rparr>
                        else m2), JBool True)
                 else (m2, JBool False)))"

definition meta_update :: "helpers \<Rightarrow> string \<Rightarrow> string \<Rightarrow> meta \<Rightarrow> dict \<Rightarrow> paramd \<Rightarrow> meta \<times> jsval" where
  "meta_update h epoch now m ind0 p =
     (let in_timestamp = dget ind0 ''@timestamp'';
          ind = ld_expand_d h ind0
      in if dflt (check_timestamp p) False \<and> \<not> timestamp_check_dictionary (meta_updated m) ind
         then (m, JUndefined)
         else meta_update_apply h epoch now m in_timestamp ind p)"

section \<open>The state bands of a Thing (model.js)\<close>

text \<open>
  What a Bridge instance answers: \<^verbatim>\<open>reachable()\<close>, and the enumeration mapping of its
  binding as a function of the attribute code and the value (the identity where the
  binding has no mapping for the code or the value).
\<close>

record bridge =
  reachable :: bool
  remap :: "string \<Rightarrow> jsval \<Rightarrow> jsval"

text \<open>
  A function handed to \<^verbatim>\<open>process.nextTick\<close>: an attribute callback (the attribute code
  and the position of the callback in \<^verbatim>\<open>__callbacksd[code]\<close>), an \<^verbatim>\<open>emit\<close> on the
  Thing's emitter, or the push of a dictionary to the Bridge.
\<close>

datatype tick = TickCallback string nat | TickEmit string | TickPush dict

datatype error = Error string

text \<open>
  The Thing: its attributes (\<^verbatim>\<open>__attributes\<close>; \<^verbatim>\<open>__attributed\<close> is the same objects by
  code), the band timestamps, the counter \<^verbatim>\<open>_pushes\<close>, the bound Bridge, the number of
  callbacks registered for each attribute code, its \<^verbatim>\<open>Meta\<close> object, and
  \<^verbatim>\<open>iotdb.shutting_down()\<close>.  Around it: the current time \<^verbatim>\<open>_.timestamp.make()\<close>
  returns, the queue of \<^verbatim>\<open>process.nextTick\<close>, the events emitted so far (listeners are
  outside this model), the attribute callbacks run so far, and the dictionaries handed
  to \<^verbatim>\<open>bridge_instance.push\<close> so far.
\<close>

record model =
  attributes :: "attribute list"
  itimestamp :: "string option"
  otimestamp :: "string option"
  pushes :: int
  bridge_instance :: "bridge option"
  callbacksd :: "string \<Rightarrow> nat"
  thing_meta :: meta
  shutting_down :: bool
  now :: string
  ticks :: "tick list"
  emitted :: "string list"
  called_back :: "(string \<times> nat \<times> jsval) list"
  pushed :: "dict list"

text \<open>An assignment to a field of the attribute object \<^verbatim>\<open>__attributed[code]\<close>.\<close>

fun set_attr :: "string \<Rightarrow> (attribute \<Rightarrow> attribute) \<Rightarrow> attribute list \<Rightarrow> attribute list" where
  "set_attr c f [] = []"
| "set_attr c f (a # as) = (if acode a = c then f a # as else a # set_attr c f as)"

subsection \<open>\<^verbatim>\<open>Model.prototype._clear_ostate\<close>\<close>

definition ostate_idle :: "attribute \<Rightarrow> bool" where
  "ostate_idle a = (ovalue a = JNull \<and> \<not> ochanged a)"

definition clear_ostate :: "helpers \<Rightarrow> model \<Rightarrow> model" where
  "clear_ostate h m =
     (let changed = list_ex (\<lambda>a. \<not> ostate_idle a) (attributes m);
          m1 = m\<lparr>attributes :=
                   map (\<lambda>a. if ostate_idle a then a else a\<lparr>ovalue := JNull, ochanged := False\<rparr>)
                     (attributes m)\<rparr>
      in if changed
         then m1\<lparr>otimestamp := timestamp_advance h (now m1) (otimestamp m1),
                  emitted := emitted m1 @ [''ostate'']\<rparr>
         else m1)"

subsection \<open>\<^verbatim>\<open>Model.prototype._push_attributes\<close>\<close>

text \<open>The loop that fills \<^verbatim>\<open>pushd\<close> from the attributes to push (given by code).\<close>

fun push_loop :: "bridge \<Rightarrow> string list \<Rightarrow> attribute list \<Rightarrow> dict \<Rightarrow> attribute list \<times> dict" where
  "push_loop b [] attrs pushd = (attrs, pushd)"
| "push_loop b (attribute_code # rest) attrs pushd =
     (case attributed attrs attribute_code of
        None \<Rightarrow> push_loop b rest attrs pushd
      | Some a \<Rightarrow>
          push_loop b rest
            (if iot_clear_value a
             then set_attr attribute_code (\<lambda>x. x\<lparr>ovalue := JNull\<rparr>) attrs else attrs)
            (AList.update attribute_code (remap b attribute_code (ovalue a)) pushd))"

definition push_attributes :: "helpers \<Rightarrow> model \<Rightarrow> string list \<Rightarrow> model" where
  "push_attributes h m codes =
     (case bridge_instance m of
        None \<Rightarrow> clear_ostate h m
      | Some b \<Rightarrow>
          if \<not> reachable b then clear_ostate h m
          else (case push_loop b codes (attributes m) [] of
                  (attrs, pushd) \<Rightarrow>
                    if pushd = [] then m\<lparr>attributes := attrs\<rparr>
                    else m\<lparr>attributes := attrs, ticks := ticks m @ [TickPush pushd]\<rparr>))"

text \<open>
  The end of one push: the callback handed to \<^verbatim>\<open>bridge_instance.push\<close> (its \<^verbatim>\<open>error\<close>
  argument is only logged) and the \<^verbatim>\<open>catch\<close> block do the same.
\<close>

definition push_settle :: "helpers \<Rightarrow> model \<Rightarrow> model" where
  "push_settle h m =
     (let m1 = m\<lparr>pushes := pushes m - 1\<rparr>
      in if pushes m1 = 0 then clear_ostate h m1 else m1)"

definition push_callback :: "helpers \<Rightarrow> bool \<Rightarrow> model \<Rightarrow> model" where
  "push_callback h err m = push_settle h m"

text \<open>
  What one call of the Bridge's \<^verbatim>\<open>push\<close> does before it returns: the calls of the
  callback it makes meanwhile (each with or without an error), and whether it ends by
  throwing.  A callback the Bridge makes later is a step of its own
  (\<^verbatim>\<open>push_callback\<close>).
\<close>

record push_outcome =
  sync_callbacks :: "bool list"
  throws :: bool

text \<open>The function \<^verbatim>\<open>_push_attributes\<close> hands to \<^verbatim>\<open>process.nextTick\<close>.\<close>

definition run_push :: "helpers \<Rightarrow> push_outcome \<Rightarrow> dict \<Rightarrow> model \<Rightarrow> error + model" where
  "run_push h outcome pushd m =
     (case bridge_instance m of
        None \<Rightarrow> Inr m
      | Some b \<Rightarrow>
          (let m1 = m\<lparr>pushes := pushes m + 1, pushed := pushed m @ [pushd]\<rparr>;
               m2 = fold (push_callback h) (sync_callbacks outcome) m1;
               m3 = (if throws outcome then push_settle h m2 else m2)
           in if pushes m3 < 0 then Inl (Error ''pushes decremeneted below 0!!!'')
              else Inr m3))"

subsection \<open>\<^verbatim>\<open>Model.prototype._update_ostate\<close>\<close>

fun update_ostate_loop ::
  "helpers \<Rightarrow> bool \<Rightarrow> dict \<Rightarrow> attribute list \<Rightarrow> string list \<Rightarrow> attribute list \<times> string list"
where
  "update_ostate_loop h v [] attrs changed = (attrs, changed)"
| "update_ostate_loop h v ((attribute_code, given) # rest) attrs changed =
     (if given = JUndefined then update_ostate_loop h v rest attrs changed
      else (case attributed attrs attribute_code of
              None \<Rightarrow> update_ostate_loop h v rest attrs changed
            | Some a \<Rightarrow>
                (let attribute_value = (if v then validate_value h a given else given)
                 in if v \<and> attribute_value = JUndefined
                    then update_ostate_loop h v rest attrs changed
                    else if \<not> force a \<and> \<not> is_type_null a \<and> strict_eq (ovalue a) attribute_value
                    then update_ostate_loop h v rest attrs changed
                    else update_ostate_loop h v rest
                           (set_attr attribute_code
                              (\<lambda>x. x\<lparr>ovalue := attribute_value, ochanged := True\<rparr>) attrs)
                           (changed @ [attribute_code]))))"

definition unmark_ochanged :: "string list \<Rightarrow> attribute list \<Rightarrow> attribute list" where
  "unmark_ochanged codes attrs = fold (\<lambda>c. set_attr c (\<lambda>x. x\<lparr>ochanged := False\<rparr>)) codes attrs"

text \<open>
  \<^verbatim>\<open>_update_ostate\<close> after its timestamp check: \<^verbatim>\<open>updated\<close> is the dictionary after
  \<^verbatim>\<open>_.timestamp.add\<close>.
\<close>

definition update_ostate_apply :: "helpers \<Rightarrow> model \<Rightarrow> dict \<Rightarrow> paramd \<Rightarrow> model" where
  "update_ostate_apply h m updated p =
     (case update_ostate_loop h (dflt (validate p) True) updated (attributes m) [] of
        (attrs, changed) \<Rightarrow>
          (let m1 = m\<lparr>attributes := attrs\<rparr>;
               m2 = (if changed \<noteq> [] then push_attributes h m1 changed else m1);
               m3 = (if changed \<noteq> []
                     then (let m4 = (if dflt (set_timestamp p) True
                                     then m2\<lparr>otimestamp :=
                                            (case ts_of (dget updated ''@timestamp'') of
                                               Some t \<Rightarrow> Some t
                                             | None \<Rightarrow> Some (now m2))\<rparr>
                                     else m2)
                           in m4\<lparr>ticks := ticks m4 @
                                  (if dflt (notify p) True then [TickEmit ''state''] else []) @
                                  [TickEmit ''ostate'']\<rparr>)
                     else m2)
           in m3\<lparr>attributes := unmark_ochanged changed (attributes m3)\<rparr>))"

definition update_ostate :: "helpers \<Rightarrow> model \<Rightarrow> dict \<Rightarrow> paramd \<Rightarrow> model" where
  "update_ostate h m updated0 p =
     (let updated = (if dflt (add_timestamp p) True then timestamp_add h (now m) updated0
                     else updated0)
      in if dflt (check_timestamp p) True \<and>
              \<not> timestamp_check_values (otimestamp m) (ts_of (dget updated ''@timestamp''))
         then m
         else update_ostate_apply h m updated p)"

subsection \<open>\<^verbatim>\<open>Model.prototype._update_istate\<close>\<close>

fun update_istate_loop ::
  "helpers \<Rightarrow> bool \<Rightarrow> dict \<Rightarrow> attribute list \<Rightarrow> string list \<Rightarrow> attribute list \<times> string list"
where
  "update_istate_loop h v [] attrs changed = (attrs, changed)"
| "update_istate_loop h v ((attribute_code, given) # rest) attrs changed =
     (if given = JUndefined then update_istate_loop h v rest attrs changed
      else (case attributed attrs attribute_code of
              None \<Rightarrow> update_istate_loop h v rest attrs changed
            | Some a \<Rightarrow>
                (let attribute_value = (if v then validate_value h a given else given)
                 in if v \<and> attribute_value = JUndefined
                    then update_istate_loop h v rest attrs changed
                    else if \<not> is_type_null a \<and> strict_eq (ivalue a) attribute_value
                    then update_istate_loop h v rest attrs changed
                    else update_istate_loop h v rest
                           (set_attr attribute_code
                              (\<lambda>x. x\<lparr>ivalue := attribute_value, ichanged := True\<rparr>) attrs)
                           (changed @ [attribute_code]))))"

definition unmark_ichanged :: "string list \<Rightarrow> attribute list \<Rightarrow> attribute list" where
  "unmark_ichanged codes attrs = fold (\<lambda>c. set_attr c (\<lambda>x. x\<lparr>ichanged := False\<rparr>)) codes attrs"

definition callback_ticks :: "(string \<Rightarrow> nat) \<Rightarrow> string list \<Rightarrow> tick list" where
  "callback_ticks cbs codes = concat (map (\<lambda>c. map (TickCallback c) [0 ..< cbs c]) codes)"

definition update_istate_apply :: "helpers \<Rightarrow> model \<Rightarrow> dict \<Rightarrow> paramd \<Rightarrow> model" where
  "update_istate_apply h m updated p =
     (case update_istate_loop h (dflt (validate p) False) updated (attributes m) [] of
        (attrs, changed) \<Rightarrow>
          if changed = [] then m\<lparr>attributes := attrs\<rparr>
          else
            (let m1 = m\<lparr>attributes := attrs\<rparr>;
                 m2 = (if dflt (set_timestamp p) True
                       then m1\<lparr>itimestamp :=
                              (case ts_of (dget updated ''@timestamp'') of
                                 Some t \<Rightarrow> Some t
                               | None \<Rightarrow> Some (now m1))\<rparr>
                       else m1);
                 m3 = m2\<lparr>ticks := ticks m2 @
                          (if dflt (notify p) True
                           then callback_ticks (callbacksd m2) changed @ [TickEmit ''state'']
                           else []) @
                          [TickEmit ''istate'']\<rparr>
             in m3\<lparr>attributes := unmark_ichanged changed (attributes m3)\<rparr>))"

definition update_istate :: "helpers \<Rightarrow> model \<Rightarrow> dict \<Rightarrow> paramd \<Rightarrow> model" where
  "update_istate h m updated p =
     (if dflt (check_timestamp p) True \<and>
         \<not> timestamp_check_values (itimestamp m) (ts_of (dget updated ''@timestamp''))
      then m
      else update_istate_apply h m updated p)"

subsection \<open>\<^verbatim>\<open>Model.prototype._update_meta\<close>, \<^verbatim>\<open>update\<close> and \<^verbatim>\<open>set\<close>\<close>

text \<open>
  \<^verbatim>\<open>_update_meta\<close> fills in its defaults and calls \<^verbatim>\<open>Meta.prototype.update\<close>; each
  \<^verbatim>\<open>thing.meta_changed()\<close> that call makes puts an \<^verbatim>\<open>emit("meta")\<close> on the next tick,
  unless the process is shutting down.
\<close>

definition update_meta :: "helpers \<Rightarrow> model \<Rightarrow> dict \<Rightarrow> paramd \<Rightarrow> model" where
  "update_meta h m updated p =
     (let p1 = p\<lparr>check_timestamp := Some (dflt (check_timestamp p) False),
                 set_timestamp := Some (dflt (set_timestamp p) True),
                 notify := Some (dflt (notify p) True)\<rparr>;
          mt = fst (meta_update h (timestamp_epoch h) (now m) (thing_meta m) updated p1);
          calls = meta_changed_calls mt - meta_changed_calls (thing_meta m)
      in m\<lparr>thing_meta := mt,
            ticks := ticks m @ (if shutting_down m then [] else replicate calls (TickEmit ''meta''))\<rparr>)"

definition update :: "helpers \<Rightarrow> model \<Rightarrow> string \<Rightarrow> dict \<Rightarrow> paramd \<Rightarrow> model" where
  "update h m band updated p =
     (if band = ''istate'' then update_istate h m updated p
      else if band = ''ostate'' then update_ostate h m updated p
      else if band = ''meta'' then update_meta h m updated p
      else m)"

definition set_value :: "helpers \<Rightarrow> model \<Rightarrow> find_key \<Rightarrow> jsval \<Rightarrow> model" where
  "set_value h m k new_value =
     (if new_value = JUndefined then m
      else (case find_attr h (attributes m) k ''set'' of
              None \<Rightarrow> m
            | Some a \<Rightarrow>
                update h m ''ostate''
                  (AList.update ''@timestamp'' (JStr (now m)) [(acode a, new_value)])
                  (no_paramd\<lparr>check_timestamp := Some False\<rparr>)))"

subsection \<open>The next tick\<close>

text \<open>
  Running the function at the head of the \<^verbatim>\<open>process.nextTick\<close> queue.  The outcome of
  the Bridge's \<^verbatim>\<open>push\<close> is used when that function is a push.
\<close>

definition run_tick :: "helpers \<Rightarrow> push_outcome \<Rightarrow> model \<Rightarrow> error + model" where
  "run_tick h outcome m =
     (case ticks m of
        [] \<Rightarrow> Inr m
      | t # rest \<Rightarrow>
          (let m1 = m\<lparr>ticks := rest\<rparr>
           in case t of
                TickCallback c i \<Rightarrow>
                  Inr (m1\<lparr>called_back := called_back m1 @
                          [(c, i, (case attributed (attributes m1) c of
                                     None \<Rightarrow> JUndefined | Some a \<Rightarrow> ivalue a))]\<rparr>)
              | TickEmit e \<Rightarrow> Inr (m1\<lparr>emitted := emitted m1 @ [e]\<rparr>)
              | TickPush pushd \<Rightarrow> run_push h outcome pushd m1))"

text \<open>The first \<^verbatim>\<open>n\<close> ticks, every push among them with the same outcome.\<close>

fun run_ticks :: "helpers \<Rightarrow> push_outcome \<Rightarrow> nat \<Rightarrow> model \<Rightarrow> error + model" where
  "run_ticks h outcome 0 m = Inr m"
| "run_ticks h outcome (Suc n) m =
     (case run_tick h outcome m of
        Inl e \<Rightarrow> Inl e
      | Inr m1 \<Rightarrow> run_ticks h outcome n m1)"

text \<open>A push during which the Bridge neither calls back nor throws: it answers later.\<close>

definition answers_later :: push_outcome where
  "answers_later = \<lparr>sync_callbacks = [], throws = False\<rparr>"


section \<open>Collections of Things (\<^verbatim>\<open>thing_array.js\<close>)\<close>

text \<open>
  A Thing is an object: collections hold references to it, and \<^verbatim>\<open>t === thing\<close> compares
  references.  What \<^verbatim>\<open>thing.thing_id()\<close> answers is a function of the reference, given
  to the functions that ask for it.
\<close>

type_synonym thing_ref = nat

datatype pkey = KEY_TAG | KEY_SETTER

text \<open>The methods of \<^verbatim>\<open>Model.prototype\<close> a collection applies to its members.\<close>

datatype command =
  Cmd_disconnect | Cmd_name | Cmd_zones | Cmd_facets | Cmd_set | Cmd_update | Cmd_pull |
  Cmd_tag | Cmd_on | Cmd_on_change

record persistd =
  pd_f :: command
  pd_av :: "jsval list"
  pd_key :: "pkey option"

datatype event = EVENT_THING_NEW thing_ref | EVENT_THING_PUSHED thing_ref | EVENT_THINGS_CHANGED

text \<open>
  A ThingArray: its elements, its recorded commands (\<^verbatim>\<open>null\<close> when it does not persist),
  the events it has emitted, and the commands applied to Things on its behalf
  (\<^verbatim>\<open>f.apply(thing, av)\<close>; what a command does to the Thing is a matter of model.js,
  and the call is taken to return: a method of the Thing that throws ends the operation
  of the collection where it stands, with the recorded commands as they were).
\<close>

record thing_array =
  items :: "thing_ref list"
  persistds :: "persistd list option"
  events :: "event list"
  applied :: "(thing_ref \<times> command \<times> jsval list) list"

definition PRE_KEYS :: "pkey list" where
  "PRE_KEYS = [KEY_TAG]"

definition in_PRE_KEYS :: "persistd \<Rightarrow> bool" where
  "in_PRE_KEYS pd = (case pd_key pd of None \<Rightarrow> False | Some k \<Rightarrow> k \<in> set PRE_KEYS)"

definition apply_pds :: "thing_ref \<Rightarrow> persistd list \<Rightarrow> thing_array \<Rightarrow> thing_array" where
  "apply_pds thing pds ta = ta\<lparr>applied := applied ta @ map (\<lambda>pd. (thing, pd_f pd, pd_av pd)) pds\<rparr>"

definition persist_pre :: "thing_ref \<Rightarrow> thing_array \<Rightarrow> thing_array" where
  "persist_pre thing ta =
     (case persistds ta of
        None \<Rightarrow> ta
      | Some pds \<Rightarrow> apply_pds thing (filter in_PRE_KEYS pds) ta)"

definition persist_post :: "thing_ref \<Rightarrow> thing_array \<Rightarrow> thing_array" where
  "persist_post thing ta =
     (case persistds ta of
        None \<Rightarrow> ta
      | Some pds \<Rightarrow> apply_pds thing (filter (\<lambda>pd. \<not> in_PRE_KEYS pd) pds) ta)"

definition things_changed :: "thing_array \<Rightarrow> thing_array" where
  "things_changed ta = ta\<lparr>events := events ta @ [EVENT_THINGS_CHANGED]\<rparr>"

text \<open>
  \<^verbatim>\<open>ThingArray.prototype.push\<close>, for an argument that is a Thing (anything else makes it
  throw at once).  The two options are \<^verbatim>\<open>emit_pushed\<close> and \<^verbatim>\<open>emit_new\<close>, after
  \<^verbatim>\<open>_.defaults\<close>.
\<close>

definition push :: "thing_array \<Rightarrow> thing_ref \<Rightarrow> bool \<Rightarrow> bool \<Rightarrow> thing_array" where
  "push ta thing emit_pushed emit_new =
     (if list_ex (\<lambda>t. t = thing) (items ta) then ta
      else
        (let ta1 = persist_pre thing ta;
             ta2 = ta1\<lparr>items := items ta1 @ [thing]\<rparr>;
             ta3 = (if emit_pushed then ta2\<lparr>events := events ta2 @ [EVENT_THING_PUSHED thing]\<rparr>
                    else ta2);
             ta4 = (if emit_new then ta3\<lparr>events := events ta3 @ [EVENT_THING_NEW thing]\<rparr>
                    else ta3);
             ta5 = (if emit_pushed \<or> emit_new then things_changed ta4 else ta4)
         in persist_post thing ta5))"

text \<open>
  The loop \<^verbatim>\<open>for (i = 0; i < xs.length; i++) if (P(xs[i])) xs.splice(i--, 1)\<close>, which
  \<^verbatim>\<open>_persist_command\<close>, \<^verbatim>\<open>_merger\<close> and the listener of \<^verbatim>\<open>filter\<close> all use.
\<close>

function splice_loop :: "('a \<Rightarrow> bool) \<Rightarrow> nat \<Rightarrow> 'a list \<Rightarrow> 'a list" where
  "splice_loop P i xs =
     (if i < length xs
      then (if P (xs ! i) then splice_loop P i (take i xs @ drop (Suc i) xs)
            else splice_loop P (Suc i) xs)
      else xs)"
  by pat_completeness auto
termination
  by (relation "measure (\<lambda>(P, i, xs). length xs - i)") auto

declare splice_loop.simps [simp del]

subsection \<open>Recorded commands\<close>

definition persist_command :: "command \<Rightarrow> jsval list \<Rightarrow> pkey option \<Rightarrow> thing_array \<Rightarrow> thing_array" where
  "persist_command f av k ta =
     (case persistds ta of
        None \<Rightarrow> ta
      | Some pds \<Rightarrow>
          (let pds1 = (if k = Some KEY_SETTER
                       then splice_loop (\<lambda>pd. pd_key pd = Some KEY_SETTER) 0 pds
                       else pds)
           in ta\<lparr>persistds := Some (pds1 @ [\<lparr>pd_f = f, pd_av = av, pd_key = k\<rparr>])\<rparr>))"

definition apply_command :: "command \<Rightarrow> jsval list \<Rightarrow> thing_array \<Rightarrow> thing_array" where
  "apply_command f av ta = ta\<lparr>applied := applied ta @ map (\<lambda>thing. (thing, f, av)) (items ta)\<rparr>"

text \<open>
  The bulk operations \<^verbatim>\<open>disconnect\<close>, \<^verbatim>\<open>name\<close>, \<^verbatim>\<open>zones\<close>, \<^verbatim>\<open>facets\<close>, \<^verbatim>\<open>set\<close>,
  \<^verbatim>\<open>update\<close>, \<^verbatim>\<open>pull\<close>, \<^verbatim>\<open>tag\<close>, \<^verbatim>\<open>on\<close> (for a key that is not one of the
  collection's own events) and \<^verbatim>\<open>on_change\<close>: each applies the command to the current
  members and records it, \<^verbatim>\<open>set\<close> and \<^verbatim>\<open>update\<close> under \<^verbatim>\<open>KEY_SETTER\<close> and \<^verbatim>\<open>tag\<close>
  under \<^verbatim>\<open>KEY_TAG\<close>.  \<^verbatim>\<open>name\<close>, \<^verbatim>\<open>zones\<close> and \<^verbatim>\<open>facets\<close> assert the type of their
  argument first.  \<^verbatim>\<open>tag\<close> first maps a function over the members that calls
  \<^verbatim>\<open>thing.tag\<close> with that function's own arguments, the Thing itself, which
  \<^verbatim>\<open>_validate_tag\<close> refuses: on a collection with a member it throws before it records.
\<close>

definition key_of :: "command \<Rightarrow> pkey option" where
  "key_of f = (if f = Cmd_set \<or> f = Cmd_update then Some KEY_SETTER
               else if f = Cmd_tag then Some KEY_TAG else None)"

fun is_String :: "jsval \<Rightarrow> bool" where
  "is_String (JStr s) = True"
| "is_String v = False"

fun is_Array :: "jsval \<Rightarrow> bool" where
  "is_Array (JArr xs) = True"
| "is_Array v = False"

definition first_arg :: "jsval list \<Rightarrow> jsval" where
  "first_arg av = (case av of [] \<Rightarrow> JUndefined | v # vs \<Rightarrow> v)"

definition bulk :: "command \<Rightarrow> jsval list \<Rightarrow> thing_array \<Rightarrow> error + thing_array" where
  "bulk f av ta =
     (if f = Cmd_name \<and> \<not> is_String (first_arg av) then Inl (Error ''AssertionError'')
      else if (f = Cmd_zones \<or> f = Cmd_facets) \<and> \<not> (is_String (first_arg av) \<or> is_Array (first_arg av))
      then Inl (Error ''AssertionError'')
      else if f = Cmd_tag \<and> items ta \<noteq> []
      then Inl (Error ''Model.tag: 'tag' must be a String, Array of String or undefined'')
      else Inr (persist_command f av (key_of f) (apply_command f av ta)))"

text \<open>
  A sequence of bulk operations on one collection; an operation that throws leaves the
  collection as it was, and the caller goes on.
\<close>

fun bulks :: "(command \<times> jsval list) list \<Rightarrow> thing_array \<Rightarrow> thing_array" where
  "bulks [] ta = ta"
| "bulks ((f, av) # rest) ta =
     bulks rest (case bulk f av ta of Inl e \<Rightarrow> ta | Inr ta1 \<Rightarrow> ta1)"

text \<open>A new collection, as the constructor leaves it.\<close>

definition new_thing_array :: "bool \<Rightarrow> thing_array" where
  "new_thing_array persist =
     \<lparr>items = [], persistds = (if persist then Some [] else None), events = [], applied = []\<rparr>"

subsection \<open>Reconciliation: \<^verbatim>\<open>_merger\<close> and the listener of \<^verbatim>\<open>filter\<close>\<close>

text \<open>
  The dictionary \<^verbatim>\<open>oidd\<close> of the ids of the existing members is a plain object
  \<^verbatim>\<open>{}\<close>, kept here as the list of its own keys.  A lookup \<^verbatim>\<open>oidd[id]\<close> also finds what
  \<^verbatim>\<open>{}\<close> inherits from \<^verbatim>\<open>Object.prototype\<close>, and every member of that is truthy.  The
  assignment \<^verbatim>\<open>oidd[id] = 1\<close> makes an own key, except for \<^verbatim>\<open>__proto__\<close>, where the
  inherited setter runs and ignores a number.  \<^verbatim>\<open>delete oidd[id]\<close> removes an own key
  and leaves what is inherited.
\<close>

definition Object_prototype_keys :: "string list" where
  "Object_prototype_keys =
     [''constructor'', ''toString'', ''toLocaleString'', ''valueOf'', ''hasOwnProperty'',
      ''isPrototypeOf'', ''propertyIsEnumerable'', ''__proto__'', ''__defineGetter__'',
      ''__defineSetter__'', ''__lookupGetter__'', ''__lookupSetter__'']"

definition oidd_put :: "string \<Rightarrow> string list \<Rightarrow> string list" where
  "oidd_put k oidd = (if k = ''__proto__'' then oidd else List.insert k oidd)"

definition oidd_has :: "string list \<Rightarrow> string \<Rightarrow> bool" where
  "oidd_has oidd k = (k \<in> set oidd \<or> k \<in> set Object_prototype_keys)"

definition oidd_of :: "(thing_ref \<Rightarrow> string) \<Rightarrow> thing_ref list \<Rightarrow> string list" where
  "oidd_of thing_id out = fold (\<lambda>t oidd. oidd_put (thing_id t) oidd) out []"

text \<open>
  The scan of one source: a Thing whose id \<^verbatim>\<open>oidd\<close> answers for is confirmed (the id is
  deleted), any other is pushed with \<^verbatim>\<open>emit_pushed: false\<close>.  The listener of
  \<^verbatim>\<open>filter\<close> skips the Things that fail \<^verbatim>\<open>_filter_test\<close>; \<^verbatim>\<open>_merger\<close> skips none.
\<close>

fun scan_src ::
  "(thing_ref \<Rightarrow> string) \<Rightarrow> (thing_ref \<Rightarrow> bool) \<Rightarrow> thing_ref list \<Rightarrow> thing_array \<Rightarrow> string list \<Rightarrow>
   thing_array \<times> string list"
where
  "scan_src thing_id test [] out oidd = (out, oidd)"
| "scan_src thing_id test (thing # rest) out oidd =
     (if \<not> test thing then scan_src thing_id test rest out oidd
      else if oidd_has oidd (thing_id thing)
      then scan_src thing_id test rest out (removeAll (thing_id thing) oidd)
      else scan_src thing_id test rest (push out thing False True) oidd)"

fun scan_srcs ::
  "(thing_ref \<Rightarrow> string) \<Rightarrow> (thing_ref \<Rightarrow> bool) \<Rightarrow> thing_ref list list \<Rightarrow> thing_array \<Rightarrow>
   string list \<Rightarrow> thing_array \<times> string list"
where
  "scan_srcs thing_id test [] out oidd = (out, oidd)"
| "scan_srcs thing_id test (src # srcs) out oidd =
     (case scan_src thing_id test src out oidd of
        (out1, oidd1) \<Rightarrow> scan_srcs thing_id test srcs out1 oidd1)"

definition remove_unconfirmed :: "(thing_ref \<Rightarrow> string) \<Rightarrow> string list \<Rightarrow> thing_array \<Rightarrow> thing_array" where
  "remove_unconfirmed thing_id oidd out =
     out\<lparr>items := splice_loop (\<lambda>t. oidd_has oidd (thing_id t)) 0 (items out)\<rparr>"

text \<open>
  The three steps \<^verbatim>\<open>_merger\<close> and the listener of \<^verbatim>\<open>filter\<close> have in common: the scan
  of the sources, the removal of the members no source confirmed, and the
  notification, which is not conditional.
\<close>

definition reconcile ::
  "(thing_ref \<Rightarrow> string) \<Rightarrow> (thing_ref \<Rightarrow> bool) \<Rightarrow> thing_ref list list \<Rightarrow> thing_array \<Rightarrow> thing_array"
where
  "reconcile thing_id test srcs out_items =
     (case scan_srcs thing_id test srcs out_items (oidd_of thing_id (items out_items)) of
        (out1, oidd1) \<Rightarrow> things_changed (remove_unconfirmed thing_id oidd1 out1))"

definition merger :: "(thing_ref \<Rightarrow> string) \<Rightarrow> thing_ref list list \<Rightarrow> thing_array \<Rightarrow> thing_array" where
  "merger thing_id srcs out_items = reconcile thing_id (\<lambda>t. True) srcs out_items"


text \<open>
  What one reconciliation adds and removes: the Things the scan pushes, and the members
  the last loop splices out.
\<close>

definition reconcile_added ::
  "(thing_ref \<Rightarrow> string) \<Rightarrow> (thing_ref \<Rightarrow> bool) \<Rightarrow> thing_ref list list \<Rightarrow> thing_array \<Rightarrow> thing_ref list"
where
  "reconcile_added thing_id test srcs out_items =
     (case scan_srcs thing_id test srcs out_items (oidd_of thing_id (items out_items)) of
        (out1, oidd1) \<Rightarrow> drop (length (items out_items)) (items out1))"

definition reconcile_removed ::
  "(thing_ref \<Rightarrow> string) \<Rightarrow> (thing_ref \<Rightarrow> bool) \<Rightarrow> thing_ref list list \<Rightarrow> thing_array \<Rightarrow> thing_ref list"
where
  "reconcile_removed thing_id test srcs out_items =
     (case scan_srcs thing_id test srcs out_items (oidd_of thing_id (items out_items)) of
        (out1, oidd1) \<Rightarrow> filter (\<lambda>t. oidd_has oidd1 (thing_id t)) (items out1))"


subsection \<open>Sequences of operations on a collection\<close>

text \<open>
  The operations that reach the recorded commands of one collection: a bulk operation,
  which records, and a push, which replays.
\<close>

datatype step = Bulk command "jsval list" | Push thing_ref bool bool

fun steps :: "step list \<Rightarrow> thing_array \<Rightarrow> thing_array" where
  "steps [] ta = ta"
| "steps (Bulk f av # rest) ta = steps rest (bulks [(f, av)] ta)"
| "steps (Push thing emit_pushed emit_new # rest) ta = steps rest (push ta thing emit_pushed emit_new)"

text \<open>
  The commands issued by the bulk operations of a sequence that return, each with its
  arguments, in the order of issue.
\<close>

fun issued :: "step list \<Rightarrow> thing_array \<Rightarrow> (command \<times> jsval list) list" where
  "issued [] ta = []"
| "issued (Bulk f av # rest) ta =
     (case bulk f av ta of
        Inl e \<Rightarrow> issued rest ta
      | Inr ta1 \<Rightarrow> (f, av) # issued rest ta1)"
| "issued (Push thing emit_pushed emit_new # rest) ta = issued rest (push ta thing emit_pushed emit_new)"

text \<open>The entry a bulk operation records for a command and its arguments.\<close>

definition pd_of :: "command \<times> jsval list \<Rightarrow> persistd" where
  "pd_of c = \<lparr>pd_f = fst c, pd_av = snd c, pd_key = key_of (fst c)\<rparr>"

definition is_setter :: "persistd \<Rightarrow> bool" where
  "is_setter pd = (pd_key pd = Some KEY_SETTER)"

definition setter_command :: "thing_ref \<times> command \<times> jsval list \<Rightarrow> bool" where
  "setter_command x = (key_of (fst (snd x)) = Some KEY_SETTER)"

definition last_only :: "'a list \<Rightarrow> 'a list" where
  "last_only xs = (case xs of [] \<Rightarrow> [] | y # ys \<Rightarrow> [last xs])"

definition record_pd :: "persistd \<Rightarrow> persistd list \<Rightarrow> persistd list" where
  "record_pd pd pds = (if is_setter pd then filter (\<lambda>x. \<not> is_setter x) pds else pds) @ [pd]"

section \<open>Example Things\<close>

text \<open>Helpers that expand nothing, validate nothing and advance a timestamp to now.\<close>

definition ex_helpers :: helpers where
  "ex_helpers = \<lparr>ld_expand = (\<lambda>s. s), ld_expand_d = (\<lambda>d. d),
     iot_purpose = ''iot:purpose'', schema_name = ''schema:name'',
     iot_reachable = ''iot:reachable'',
     validate_value = (\<lambda>a v. v),
     timestamp_add = (\<lambda>now d. if truthy (dget d ''@timestamp'') then d
                                else AList.update ''@timestamp'' (JStr now) d),
     timestamp_advance = (\<lambda>now old. Some now),
     timestamp_epoch = ''1970-01-01T00:00:00.000Z''\<rparr>"

definition ex_attr :: "string \<Rightarrow> string \<Rightarrow> bool \<Rightarrow> bool \<Rightarrow> attribute" where
  "ex_attr c purpose sensor actuator =
     \<lparr>acode = c, props = [(''iot:purpose'', JStr purpose)],
      is_sensor = sensor, is_actuator = actuator, is_type_null = False,
      iot_clear_value = False, force = False,
      ivalue = JNull, ovalue = JNull, ichanged = False, ochanged = False\<rparr>"

text \<open>
  Two attributes with the same purpose: the first is neither sensor nor actuator, the
  second is an actuator only.
\<close>

definition ex_pair :: "attribute list" where
  "ex_pair = [ex_attr ''level'' ''iot-purpose:brightness'' False False,
              ex_attr ''dim'' ''iot-purpose:brightness'' False True]"

definition ex_brightness :: dict where
  "ex_brightness = [(''iot:purpose'', JStr ''iot-purpose:brightness'')]"

text \<open>
  A Thing with two idle attributes, bound to a reachable Bridge without a mapping; its
  bands and its metadata carry the timestamp of 2015.
\<close>

definition ex_meta :: meta where
  "ex_meta = \<lparr>meta_updated = [(''@timestamp'', JStr ''2015-03-25T21:28:43.613Z'')],
     metad = None,
     thing_metad = [(''iot:thing-id'', JStr ''urn:iotdb:thing:lamp-1:hue-light''),
                    (''iot:model-id'', JStr ''hue-light''), (''schema:name'', JStr ''Lamp'')],
     meta_changed_calls = 0\<rparr>"

definition ex_model :: model where
  "ex_model = \<lparr>attributes = [ex_attr ''on'' ''iot-purpose:on'' True True,
                              ex_attr ''color'' ''iot-purpose:color'' True True],
     itimestamp = Some ''2015-03-25T21:28:43.613Z'',
     otimestamp = Some ''2015-03-25T21:28:43.613Z'',
     pushes = 0,
     bridge_instance = Some \<lparr>reachable = True, remap = (\<lambda>c v. v)\<rparr>,
     callbacksd = (\<lambda>c. 0),
     thing_meta = ex_meta,
     shutting_down = False,
     now = ''2016-02-03T10:00:00.000Z'',
     ticks = [], emitted = [], called_back = [], pushed = []\<rparr>"




text \<open>The second attribute and the Bridge of the example Thing, and the Thing with red pending.\<close>

definition ex_color :: attribute where
  "ex_color = ex_attr ''color'' ''iot-purpose:color'' True True"

definition ex_bridge :: bridge where
  "ex_bridge = \<lparr>reachable = True, remap = (\<lambda>c v. v)\<rparr>"


text \<open>A Thing with one attribute that has \<^verbatim>\<open>iot:clear-value\<close>, and that attribute.\<close>

definition ex_ring :: attribute where
  "ex_ring = (ex_attr ''ring'' ''iot-purpose:ring'' False True)\<lparr>iot_clear_value := True\<rparr>"

definition ex_button :: model where
  "ex_button = ex_model\<lparr>attributes := [(ex_attr ''ring'' ''iot-purpose:ring'' False True)
                                           \<lparr>iot_clear_value := True\<rparr>]\<rparr>"

text \<open>Two Thing objects (0 and 1) that answer the same thing id, and a collection of the first.\<close>

definition ex_thing_id :: "thing_ref \<Rightarrow> string" where
  "ex_thing_id t = ''urn:iotdb:thing:lamp-1:hue-light''"

definition ex_array :: thing_array where
  "ex_array = (new_thing_array True)\<lparr>items := [0]\<rparr>"

section \<open>Key resolution and reading\<close>

lemma pick_matches_sensor:
  "fst (pick_matches ms s a) = (case s of None \<Rightarrow> List.find is_sensor ms | Some x \<Rightarrow> Some x)"
  by (induction ms arbitrary: s a) (auto split: option.splits)

lemma pick_matches_actuator:
  "snd (pick_matches ms s a) = (case a of None \<Rightarrow> List.find is_actuator ms | Some x \<Rightarrow> Some x)"
  by (induction ms arbitrary: s a) (auto split: option.splits)

lemma pick_matches_find:
  "pick_matches ms None None = (List.find is_sensor ms, List.find is_actuator ms)"
  using pick_matches_sensor [of ms None None] pick_matches_actuator [of ms None None]
  by (simp add: prod_eq_iff)

lemma find_Some_list_ex: "(List.find P xs \<noteq> None) = list_ex P xs"
  by (induction xs) auto

lemma choose_match_many:
  assumes "length matches \<noteq> 1"
  shows "choose_match matches mode =
           (if mode = ''set'' \<and> list_ex is_actuator matches then List.find is_actuator matches
            else if (mode = ''get'' \<or> mode = ''on'') \<and> list_ex is_sensor matches
              then List.find is_sensor matches
            else if list_ex is_actuator matches then List.find is_actuator matches
            else if list_ex is_sensor matches then List.find is_sensor matches
            else (case matches of [] \<Rightarrow> None | m # ms \<Rightarrow> Some m))"
  using assms unfolding choose_match_def pick_matches_find find_Some_list_ex [symmetric]
  by (cases "List.find is_sensor matches"; cases "List.find is_actuator matches"; simp)

lemma ex_pair_matches: "matches_of ex_helpers ex_pair ex_brightness = ex_pair"
  by (simp add: matches_of_def ex_helpers_def ex_attr_def ex_pair_def ex_brightness_def dget_def)

lemma ex_pair_find_get:
  "find_dict ex_helpers ex_pair ex_brightness ''get'' False = Some (ex_pair ! 1)"
  unfolding find_dict_def if_False ex_pair_matches
  by (simp add: choose_match_def ex_pair_def ex_attr_def)

text \<open>
  C8, as the code has it.  When a match dictionary matches more than one attribute,
  \<^verbatim>\<open>find\<close> in mode "set" returns the first actuator among the matches when there is
  one; in the modes "get" and "on" it returns the first sensor among the matches when
  there is one; when there is no match of the kind the mode asks for, it returns the
  first actuator if there is one, otherwise the first sensor if there is one, and only
  when no match is a sensor or an actuator the first match in declaration order.
\<close>

theorem find_dict_resolution:
  assumes "matches_of h attrs (if expand then ld_expand_d h d else d) = matches"
      and "1 < length matches"
  shows "find_dict h attrs d mode expand =
           (if mode = ''set'' \<and> list_ex is_actuator matches then List.find is_actuator matches
            else if (mode = ''get'' \<or> mode = ''on'') \<and> list_ex is_sensor matches
              then List.find is_sensor matches
            else if list_ex is_actuator matches then List.find is_actuator matches
            else if list_ex is_sensor matches then List.find is_sensor matches
            else Some (hd matches))"
proof -
  from assms(2) obtain m ms where "matches = m # ms" by (cases matches) auto
  then have "(case matches of [] \<Rightarrow> None | m # ms \<Rightarrow> Some m) = Some (hd matches)" by simp
  moreover have "length matches \<noteq> 1" using assms(2) by simp
  ultimately show ?thesis
    unfolding find_dict_def assms(1) using choose_match_many [of matches mode] by simp
qed

text \<open>
  The resolution at the two example attributes, in mode "set": the actuator, which is
  the second match.
\<close>

theorem find_dict_resolution_witness:
  "matches_of ex_helpers ex_pair ex_brightness = ex_pair \<and> 1 < length ex_pair \<and>
   find_dict ex_helpers ex_pair ex_brightness ''set'' False = Some (ex_pair ! 1)"
proof -
  have len: "1 < length ex_pair" by (simp add: ex_pair_def)
  have "find_dict ex_helpers ex_pair ex_brightness ''set'' False = Some (ex_pair ! 1)"
    using find_dict_resolution [of ex_helpers ex_pair False ex_brightness ex_pair "''set''"]
      ex_pair_matches len
    by (simp add: ex_pair_def ex_attr_def)
  then show ?thesis using ex_pair_matches len by simp
qed

text \<open>
  C8 as stated fails.  Both example attributes match the dictionary and neither is a
  sensor, so mode "get" has no match of its kind; \<^verbatim>\<open>find\<close> returns the second match,
  the actuator, and not the first match in declaration order.
\<close>

theorem find_first_match_counterexample:
  "matches_of ex_helpers ex_pair ex_brightness = ex_pair \<and>
   \<not> list_ex is_sensor ex_pair \<and>
   find_dict ex_helpers ex_pair ex_brightness ''get'' False = Some (ex_pair ! 1) \<and>
   ex_pair ! 1 \<noteq> ex_pair ! 0"
proof -
  have "\<not> list_ex is_sensor ex_pair" by (simp add: ex_pair_def ex_attr_def)
  moreover have "ex_pair ! 1 \<noteq> ex_pair ! 0" by (simp add: ex_pair_def ex_attr_def)
  ultimately show ?thesis using ex_pair_matches ex_pair_find_get by simp
qed

text \<open>
  C10.  When \<^verbatim>\<open>get\<close> resolves its key to an attribute, it returns the attribute's
  input-band value when that is not null, otherwise its output-band value when that is
  not null, otherwise null: the input band comes first.
\<close>

theorem get_value_istate_first:
  assumes "find_attr h attrs k ''get'' = Some a"
  shows "get_value h attrs k =
           (if ivalue a \<noteq> JNull then ivalue a
            else if ovalue a \<noteq> JNull then ovalue a
            else JNull)"
  using assms by (simp add: get_value_def)

text \<open>
  An attribute "on" observed as true while false is still the desired value: \<^verbatim>\<open>get\<close>
  answers true.
\<close>

theorem get_value_istate_first_witness:
  "find_attr ex_helpers [(ex_attr ''on'' ''iot-purpose:on'' True True)
       \<lparr>ivalue := JBool True, ovalue := JBool False\<rparr>] (KString ''on'') ''get'' =
     Some ((ex_attr ''on'' ''iot-purpose:on'' True True)\<lparr>ivalue := JBool True, ovalue := JBool False\<rparr>) \<and>
   get_value ex_helpers [(ex_attr ''on'' ''iot-purpose:on'' True True)
       \<lparr>ivalue := JBool True, ovalue := JBool False\<rparr>] (KString ''on'') = JBool True"
proof -
  have f: "find_attr ex_helpers [(ex_attr ''on'' ''iot-purpose:on'' True True)
       \<lparr>ivalue := JBool True, ovalue := JBool False\<rparr>] (KString ''on'') ''get'' =
     Some ((ex_attr ''on'' ''iot-purpose:on'' True True)\<lparr>ivalue := JBool True, ovalue := JBool False\<rparr>)"
    by (simp add: last_subkey_def replace_slashes_def attributed_def ex_attr_def Let_def)
  show ?thesis using get_value_istate_first [OF f] f by simp
qed

section \<open>Timestamp conflicts\<close>

lemma apply_istate_check [simp]:
  "update_istate_apply h m updated (p\<lparr>check_timestamp := c\<rparr>) = update_istate_apply h m updated p"
  by (simp add: update_istate_apply_def Let_def split: prod.splits)

lemma apply_ostate_check [simp]:
  "update_ostate_apply h m updated (p\<lparr>check_timestamp := c\<rparr>) = update_ostate_apply h m updated p"
  by (simp add: update_ostate_apply_def Let_def split: prod.splits)

lemma apply_meta_check [simp]:
  "meta_update_apply h epoch t m its ind (p\<lparr>check_timestamp := c\<rparr>) = meta_update_apply h epoch t m its ind p"
  by (simp add: meta_update_apply_def Let_def split: prod.splits)














section \<open>Setting a value and pushing it\<close>

lemma find_member: "List.find P xs = Some a \<Longrightarrow> a \<in> set xs"
  by (induction xs) (auto split: if_splits)

lemma choose_match_member:
  assumes "choose_match matches mode = Some a"
  shows "a \<in> set matches"
proof (cases "length matches = 1")
  case True
  then obtain x where "matches = [x]" by (cases matches) auto
  with assms show ?thesis by (simp add: choose_match_def)
next
  case False
  with assms have "List.find is_actuator matches = Some a \<or> List.find is_sensor matches = Some a \<or>
      (case matches of [] \<Rightarrow> None | m # ms \<Rightarrow> Some m) = Some a"
    unfolding choose_match_def pick_matches_find by (simp split: if_splits)
  then show ?thesis
  proof (elim disjE)
    assume "List.find is_actuator matches = Some a"
    then show ?thesis by (rule find_member)
  next
    assume "List.find is_sensor matches = Some a"
    then show ?thesis by (rule find_member)
  next
    assume "(case matches of [] \<Rightarrow> None | m # ms \<Rightarrow> Some m) = Some a"
    then show ?thesis by (cases matches) auto
  qed
qed

lemma find_attr_member:
  assumes "find_attr h attrs k mode = Some a"
  shows "a \<in> set attrs"
proof -
  have d: "\<And>d e. find_dict h attrs d mode e = Some a \<Longrightarrow> a \<in> set attrs"
    unfolding find_dict_def matches_of_def by (drule choose_match_member) simp
  show ?thesis
  proof (cases k)
    case (KString s)
    with assms d show ?thesis
      by (auto simp add: Let_def attributed_def dest: find_member split: if_splits)
  next
    case (KDict x)
    with assms d show ?thesis by simp
  qed
qed

lemma attributed_member:
  "a \<in> set attrs \<Longrightarrow> distinct (map acode attrs) \<Longrightarrow> attributed attrs (acode a) = Some a"
  unfolding attributed_def by (induction attrs) auto

lemma attributed_set_attr_same:
  "attributed attrs c = Some a \<Longrightarrow> acode (f a) = c \<Longrightarrow>
   attributed (set_attr c f attrs) c = Some (f a)"
  unfolding attributed_def by (induction attrs) (auto split: if_splits)

lemma attributed_set_attr_other:
  "c' \<noteq> c \<Longrightarrow> (\<And>x. acode (f x) = acode x) \<Longrightarrow>
   attributed (set_attr c f attrs) c' = attributed attrs c'"
  unfolding attributed_def by (induction attrs) auto

lemma attributed_absent:
  "c \<notin> set (map acode attrs) \<Longrightarrow> attributed attrs c = None"
  unfolding attributed_def by (induction attrs) auto

lemma set_attr_absent:
  "attributed attrs c = None \<Longrightarrow> set_attr c f attrs = attrs"
  unfolding attributed_def by (induction attrs) (auto split: if_splits)

lemma set_attr_twice:
  "(\<And>x. acode x = c \<Longrightarrow> acode (f x) = c) \<Longrightarrow>
   set_attr c g (set_attr c f attrs) = set_attr c (\<lambda>x. g (f x)) attrs"
  by (induction attrs) auto

lemma set_attr_cong:
  "attributed attrs c = Some a \<Longrightarrow> f a = g a \<Longrightarrow> set_attr c f attrs = set_attr c g attrs"
  unfolding attributed_def by (induction attrs) (auto split: if_splits)

lemma strict_eq_null: "strict_eq JNull v = (v = JNull)"
  by (cases v) auto


lemma clear_ostate_pushes [simp]: "pushes (clear_ostate h m) = pushes m"
  by (simp add: clear_ostate_def Let_def)

lemma clear_ostate_pushed [simp]: "pushed (clear_ostate h m) = pushed m"
  by (simp add: clear_ostate_def Let_def)

lemma push_settle_pushes [simp]: "pushes (push_settle h m) = pushes m - 1"
  by (simp add: push_settle_def Let_def)


lemma push_settle_more:
  "pushes m \<noteq> 1 \<Longrightarrow> push_settle h m = m\<lparr>pushes := pushes m - 1\<rparr>"
  by (simp add: push_settle_def Let_def)







lemma set_value_pending:
  assumes key: "find_attr h (attributes m) k ''set'' = Some a"
      and codes: "distinct (map acode (attributes m))"
      and nots: "''@timestamp'' \<notin> set (map acode (attributes m))"
      and idle: "list_all ostate_idle (attributes m)"
      and bridge: "bridge_instance m = Some b" "reachable b"
      and val: "new_value \<noteq> JUndefined" "validate_value h a new_value = v"
               "v \<noteq> JUndefined" "v \<noteq> JNull"
      and noclear: "\<not> iot_clear_value a"
      and tsadd: "timestamp_add h (now m) (AList.update ''@timestamp'' (JStr (now m)) [(acode a, new_value)]) =
                  AList.update ''@timestamp'' (JStr (now m)) [(acode a, new_value)]"
  shows "set_value h m k new_value =
           m\<lparr>attributes := set_attr (acode a) (\<lambda>x. x\<lparr>ovalue := v\<rparr>) (attributes m),
             otimestamp := Some (now m),
             ticks := ticks m @ [TickPush [(acode a, remap b (acode a) v)], TickEmit ''state'',
                                 TickEmit ''ostate'']\<rparr>"
proof -
  let ?c = "acode a"
  let ?attrs = "attributes m"
  let ?F = "\<lambda>x. x\<lparr>ovalue := v, ochanged := True\<rparr>"
  let ?upd = "[(?c, new_value), (''@timestamp'', JStr (now m))]"
  have mem: "a \<in> set ?attrs" using key by (rule find_attr_member)
  then have c_nots: "?c \<noteq> ''@timestamp''" using nots by (metis imageI set_map)
  have c_nots': "''@timestamp'' \<noteq> ?c" using c_nots by (rule not_sym)
  have at: "attributed ?attrs ?c = Some a" using mem codes by (rule attributed_member)
  have a_idle: "ovalue a = JNull" "\<not> ochanged a"
    using idle mem by (auto simp add: list_all_iff ostate_idle_def)
  have upd: "AList.update ''@timestamp'' (JStr (now m)) [(?c, new_value)] = ?upd"
    using c_nots by simp
  have at1: "attributed (set_attr ?c ?F ?attrs) ?c = Some (?F a)"
    using at by (rule attributed_set_attr_same) simp
  have ts1: "attributed (set_attr ?c ?F ?attrs) ''@timestamp'' = None"
    using attributed_absent [OF nots] c_nots
    by (simp add: attributed_set_attr_other)
  have loop: "update_ostate_loop h True ?upd ?attrs [] = (set_attr ?c ?F ?attrs, [?c])"
    using val at a_idle ts1 by (simp add: strict_eq_null Let_def)
  have pl: "push_loop b [?c] (set_attr ?c ?F ?attrs) [] =
              (set_attr ?c ?F ?attrs, [(?c, remap b ?c v)])"
    using at1 noclear by simp
  have un: "unmark_ochanged [?c] (set_attr ?c ?F ?attrs) = set_attr ?c (\<lambda>x. x\<lparr>ovalue := v\<rparr>) ?attrs"
  proof -
    have "set_attr ?c (\<lambda>x. x\<lparr>ochanged := False\<rparr>) (set_attr ?c ?F ?attrs) =
            set_attr ?c (\<lambda>x. x\<lparr>ovalue := v, ochanged := False\<rparr>) ?attrs"
      by (subst set_attr_twice) simp_all
    also have "\<dots> = set_attr ?c (\<lambda>x. x\<lparr>ovalue := v\<rparr>) ?attrs"
      using a_idle by (intro set_attr_cong [OF at]) simp
    finally show ?thesis by (simp add: unmark_ochanged_def)
  qed
  have pa: "push_attributes h (m\<lparr>attributes := set_attr ?c ?F ?attrs\<rparr>) [?c] =
              m\<lparr>attributes := set_attr ?c ?F ?attrs,
                ticks := ticks m @ [TickPush [(?c, remap b ?c v)]]\<rparr>"
    using bridge by (simp add: push_attributes_def pl del: push_loop.simps)
  have ap: "update_ostate_apply h m ?upd (no_paramd\<lparr>check_timestamp := Some False\<rparr>) =
              m\<lparr>attributes := set_attr ?c (\<lambda>x. x\<lparr>ovalue := v\<rparr>) ?attrs,
                otimestamp := Some (now m),
                ticks := ticks m @ [TickPush [(?c, remap b ?c v)], TickEmit ''state'',
                                    TickEmit ''ostate'']\<rparr>"
    by (simp add: update_ostate_apply_def dflt_def no_paramd_def Let_def loop pa un dget_def c_nots c_nots'
        del: update_ostate_loop.simps split: option.splits)
  have "update_ostate h m ?upd (no_paramd\<lparr>check_timestamp := Some False\<rparr>) =
          update_ostate_apply h m ?upd (no_paramd\<lparr>check_timestamp := Some False\<rparr>)"
    using tsadd unfolding upd by (simp add: update_ostate_def dflt_def no_paramd_def Let_def)
  with ap show ?thesis
    using key val(1) c_nots unfolding set_value_def update_def by simp
qed

lemma set_attr_same:
  "attributed attrs c = Some a \<Longrightarrow> f a = a \<Longrightarrow> set_attr c f attrs = attrs"
  unfolding attributed_def by (induction attrs) (auto split: if_splits)

lemma set_value_cleared:
  assumes key: "find_attr h (attributes m) k ''set'' = Some a"
      and codes: "distinct (map acode (attributes m))"
      and nots: "''@timestamp'' \<notin> set (map acode (attributes m))"
      and idle: "list_all ostate_idle (attributes m)"
      and bridge: "bridge_instance m = Some b" "reachable b"
      and val: "new_value \<noteq> JUndefined" "validate_value h a new_value = v"
               "v \<noteq> JUndefined" "v \<noteq> JNull"
      and clear: "iot_clear_value a"
      and tsadd: "timestamp_add h (now m) (AList.update ''@timestamp'' (JStr (now m)) [(acode a, new_value)]) =
                  AList.update ''@timestamp'' (JStr (now m)) [(acode a, new_value)]"
  shows "set_value h m k new_value =
           m\<lparr>otimestamp := Some (now m),
             ticks := ticks m @ [TickPush [(acode a, remap b (acode a) v)], TickEmit ''state'',
                                 TickEmit ''ostate'']\<rparr>"
proof -
  let ?c = "acode a"
  let ?attrs = "attributes m"
  let ?F = "\<lambda>x. x\<lparr>ovalue := v, ochanged := True\<rparr>"
  let ?G = "\<lambda>x. x\<lparr>ovalue := JNull\<rparr>"
  let ?upd = "[(?c, new_value), (''@timestamp'', JStr (now m))]"
  have mem: "a \<in> set ?attrs" using key by (rule find_attr_member)
  then have c_nots: "?c \<noteq> ''@timestamp''" using nots by (metis imageI set_map)
  have c_nots': "''@timestamp'' \<noteq> ?c" using c_nots by (rule not_sym)
  have at: "attributed ?attrs ?c = Some a" using mem codes by (rule attributed_member)
  have a_idle: "ovalue a = JNull" "\<not> ochanged a"
    using idle mem by (auto simp add: list_all_iff ostate_idle_def)
  have upd: "AList.update ''@timestamp'' (JStr (now m)) [(?c, new_value)] = ?upd"
    using c_nots by simp
  have at1: "attributed (set_attr ?c ?F ?attrs) ?c = Some (?F a)"
    using at by (rule attributed_set_attr_same) simp
  have ts1: "attributed (set_attr ?c ?F ?attrs) ''@timestamp'' = None"
    using attributed_absent [OF nots] c_nots
    by (simp add: attributed_set_attr_other)
  have loop: "update_ostate_loop h True ?upd ?attrs [] = (set_attr ?c ?F ?attrs, [?c])"
    using val at a_idle ts1 by (simp add: strict_eq_null Let_def)
  have pl: "push_loop b [?c] (set_attr ?c ?F ?attrs) [] =
              (set_attr ?c ?G (set_attr ?c ?F ?attrs), [(?c, remap b ?c v)])"
    using at1 clear by simp
  let ?U = "\<lambda>x. x\<lparr>ochanged := False\<rparr>"
  have un: "unmark_ochanged [?c] (set_attr ?c ?G (set_attr ?c ?F ?attrs)) = ?attrs"
  proof -
    have s1: "set_attr ?c ?G (set_attr ?c ?F ?attrs) = set_attr ?c (\<lambda>x. ?G (?F x)) ?attrs"
      by (rule set_attr_twice) simp
    have s2: "set_attr ?c ?U (set_attr ?c (\<lambda>x. ?G (?F x)) ?attrs) =
                set_attr ?c (\<lambda>x. ?U (?G (?F x))) ?attrs"
      by (rule set_attr_twice) simp
    have s3: "?U (?G (?F a)) = a" using a_idle by (cases a) simp
    have s4: "set_attr ?c (\<lambda>x. ?U (?G (?F x))) ?attrs = ?attrs"
      using at s3 by (rule set_attr_same)
    show ?thesis
      unfolding unmark_ochanged_def by (simp only: fold_simps s1 s2 s4)
  qed
  have pa: "push_attributes h (m\<lparr>attributes := set_attr ?c ?F ?attrs\<rparr>) [?c] =
              m\<lparr>attributes := set_attr ?c ?G (set_attr ?c ?F ?attrs),
                ticks := ticks m @ [TickPush [(?c, remap b ?c v)]]\<rparr>"
    using bridge by (simp add: push_attributes_def pl del: push_loop.simps)
  have ap: "update_ostate_apply h m ?upd (no_paramd\<lparr>check_timestamp := Some False\<rparr>) =
              m\<lparr>attributes := ?attrs,
                otimestamp := Some (now m),
                ticks := ticks m @ [TickPush [(?c, remap b ?c v)], TickEmit ''state'',
                                    TickEmit ''ostate'']\<rparr>"
    by (simp add: update_ostate_apply_def dflt_def no_paramd_def Let_def loop pa un dget_def c_nots c_nots'
        del: update_ostate_loop.simps split: option.splits)
  have "update_ostate h m ?upd (no_paramd\<lparr>check_timestamp := Some False\<rparr>) =
          update_ostate_apply h m ?upd (no_paramd\<lparr>check_timestamp := Some False\<rparr>)"
    using tsadd unfolding upd by (simp add: update_ostate_def dflt_def no_paramd_def Let_def)
  with ap show ?thesis
    using key val(1) c_nots unfolding set_value_def update_def by simp
qed

lemma idle_restore:
  "ostate_idle a \<Longrightarrow> a\<lparr>ovalue := JNull, ochanged := False\<rparr> = a"
  by (cases a) (simp add: ostate_idle_def)

lemma clear_idle_map:
  "list_all ostate_idle attrs \<Longrightarrow>
   map (\<lambda>x. if ostate_idle x then x else x\<lparr>ovalue := JNull, ochanged := False\<rparr>) attrs = attrs"
  by (induction attrs) simp_all

lemma clear_pending_map:
  assumes "list_all ostate_idle attrs" and "v \<noteq> JNull"
  shows "map (\<lambda>x. if ostate_idle x then x else x\<lparr>ovalue := JNull, ochanged := False\<rparr>)
           (set_attr c (\<lambda>x. x\<lparr>ovalue := v\<rparr>) attrs) = attrs"
  using assms
proof (induction attrs)
  case Nil
  then show ?case by simp
next
  case (Cons x xs)
  then have i: "ostate_idle x" and r: "list_all ostate_idle xs" by simp_all
  have m: "map (\<lambda>x. if ostate_idle x then x else x\<lparr>ovalue := JNull, ochanged := False\<rparr>) xs = xs"
    using r by (rule clear_idle_map)
  show ?case
  proof (cases "acode x = c")
    case True
    have "\<not> ostate_idle (x\<lparr>ovalue := v\<rparr>)" using Cons.prems(2) by (simp add: ostate_idle_def)
    with True m idle_restore [OF i] show ?thesis by simp
  next
    case False
    with i Cons.IH [OF r Cons.prems(2)] show ?thesis by simp
  qed
qed

lemma pending_not_idle:
  assumes "attributed attrs c = Some a" and "v \<noteq> JNull"
  shows "list_ex (\<lambda>x. \<not> ostate_idle x) (set_attr c (\<lambda>x. x\<lparr>ovalue := v\<rparr>) attrs)"
  using assms unfolding attributed_def
  by (induction attrs) (auto simp add: ostate_idle_def split: if_splits)

text \<open>The callback of the one push in flight, with a pending value and with an idle band.\<close>

lemma callback_clears:
  assumes "attributed attrs c = Some a" and "list_all ostate_idle attrs" and "v \<noteq> JNull"
      and "pushes x = 1" and "attributes x = set_attr c (\<lambda>x. x\<lparr>ovalue := v\<rparr>) attrs"
  shows "push_callback h err x =
           x\<lparr>pushes := 0, attributes := attrs,
             otimestamp := timestamp_advance h (now x) (otimestamp x),
             emitted := emitted x @ [''ostate'']\<rparr>"
  using pending_not_idle [OF assms(1,3)] clear_pending_map [OF assms(2,3), of c] assms(4,5)
  by (cases x) (simp add: push_callback_def push_settle_def clear_ostate_def Let_def)

lemma callback_idle:
  assumes "list_all ostate_idle (attributes x)" and "pushes x = 1"
  shows "push_callback h err x = x\<lparr>pushes := 0\<rparr>"
proof -
  have "\<not> list_ex (\<lambda>a. \<not> ostate_idle a) (attributes x)"
    using assms(1) by (simp add: list_all_iff list_ex_iff)
  then show ?thesis
    using clear_idle_map [OF assms(1)] assms(2)
    by (cases x) (simp add: push_callback_def push_settle_def clear_ostate_def Let_def)
qed

text \<open>
  C2, as the code has it.  Take a Thing with an idle output band, no push in flight
  and nothing waiting for the next tick, bound to a reachable Bridge, and an attribute
  that the key resolves to (codes are unique, and none is \<^verbatim>\<open>@timestamp\<close>).  Set a value
  that validation accepts as a value other than null.  Then \<^verbatim>\<open>set\<close> sets the output
  timestamp and queues one push and the two notifications of the change; the first tick
  hands the dictionary to the Bridge and takes the counter to 1; and the callback of the
  Bridge, whether it comes during the push or after one, two or three of the ticks,
  takes the counter to 0 again.

  For an attribute without \<^verbatim>\<open>iot:clear-value\<close>, the validated value stays on the output
  band until the callback, which makes the output value null again, advances the output
  timestamp and emits one more "ostate": after the three ticks and the callback the
  Thing is as it was before, but for that timestamp, the three events and the
  dictionary pushed.

  For an attribute with \<^verbatim>\<open>iot:clear-value\<close>, the value goes into the push only: the output
  value is null again when \<^verbatim>\<open>set\<close> returns, and the callback changes the counter and
  nothing else (no timestamp advance, no event).
\<close>

theorem set_push_clear:
  assumes key: "find_attr h (attributes m) k ''set'' = Some a"
      and codes: "distinct (map acode (attributes m))"
      and nots: "''@timestamp'' \<notin> set (map acode (attributes m))"
      and idle: "list_all ostate_idle (attributes m)"
      and quiet: "pushes m = 0" "ticks m = []"
      and bridge: "bridge_instance m = Some b" "reachable b"
      and val: "new_value \<noteq> JUndefined" "validate_value h a new_value = v"
               "v \<noteq> JUndefined" "v \<noteq> JNull"
      and tsadd: "timestamp_add h (now m) (AList.update ''@timestamp'' (JStr (now m)) [(acode a, new_value)]) =
                  AList.update ''@timestamp'' (JStr (now m)) [(acode a, new_value)]"
  shows "let pushd = [(acode a, remap b (acode a) v)];
             m1 = set_value h m k new_value;
             m2 = m1\<lparr>pushes := 1, pushed := pushed m @ [pushd],
                     ticks := [TickEmit ''state'', TickEmit ''ostate'']\<rparr>;
             m3 = m2\<lparr>ticks := [TickEmit ''ostate''], emitted := emitted m @ [''state'']\<rparr>;
             m4 = m2\<lparr>ticks := [], emitted := emitted m @ [''state'', ''ostate'']\<rparr>;
             settled = (\<lambda>x. if iot_clear_value a then x\<lparr>pushes := 0\<rparr>
                            else x\<lparr>pushes := 0, attributes := attributes m,
                                   otimestamp := timestamp_advance h (now m) (Some (now m)),
                                   emitted := emitted x @ [''ostate'']\<rparr>)
         in attributed (attributes m1) (acode a) =
              Some (if iot_clear_value a then a else a\<lparr>ovalue := v\<rparr>) \<and>
            pushes m1 = 0 \<and>
            otimestamp m1 = Some (now m) \<and>
            ticks m1 = [TickPush pushd, TickEmit ''state'', TickEmit ''ostate''] \<and>
            run_ticks h answers_later 1 m1 = Inr m2 \<and>
            run_ticks h answers_later 2 m1 = Inr m3 \<and>
            run_ticks h answers_later 3 m1 = Inr m4 \<and>
            attributes m4 = attributes m1 \<and>
            run_ticks h \<lparr>sync_callbacks = [err], throws = False\<rparr> 1 m1 = Inr (push_callback h err m2) \<and>
            push_callback h err m2 = settled m2 \<and>
            push_callback h err m3 = settled m3 \<and>
            push_callback h err m4 = settled m4 \<and>
            push_callback h err m4 =
              (if iot_clear_value a
               then m\<lparr>otimestamp := Some (now m),
                      emitted := emitted m @ [''state'', ''ostate''],
                      pushed := pushed m @ [pushd]\<rparr>
               else m\<lparr>otimestamp := timestamp_advance h (now m) (Some (now m)),
                      emitted := emitted m @ [''state'', ''ostate'', ''ostate''],
                      pushed := pushed m @ [pushd]\<rparr>)"
proof -
  let ?c = "acode a"
  let ?pushd = "[(?c, remap b ?c v)]"
  let ?A = "if iot_clear_value a then attributes m
            else set_attr ?c (\<lambda>x. x\<lparr>ovalue := v\<rparr>) (attributes m)"
  let ?m1 = "m\<lparr>attributes := ?A, otimestamp := Some (now m),
               ticks := [TickPush ?pushd, TickEmit ''state'', TickEmit ''ostate'']\<rparr>"
  let ?m2 = "?m1\<lparr>pushes := 1, pushed := pushed m @ [?pushd],
                  ticks := [TickEmit ''state'', TickEmit ''ostate'']\<rparr>"
  let ?m3 = "?m2\<lparr>ticks := [TickEmit ''ostate''], emitted := emitted m @ [''state'']\<rparr>"
  let ?m4 = "?m2\<lparr>ticks := [], emitted := emitted m @ [''state'', ''ostate'']\<rparr>"
  let ?fin = "\<lambda>x. if iot_clear_value a then x\<lparr>pushes := 0\<rparr>
                  else x\<lparr>pushes := 0, attributes := attributes m,
                         otimestamp := timestamp_advance h (now m) (Some (now m)),
                         emitted := emitted x @ [''ostate'']\<rparr>"
  have m1: "set_value h m k new_value = ?m1"
  proof (cases "iot_clear_value a")
    case True
    from set_value_cleared [OF key codes nots idle bridge val True tsadd] quiet(2) True
    show ?thesis by (cases m) simp
  next
    case False
    from set_value_pending [OF key codes nots idle bridge val False tsadd] quiet(2) False
    show ?thesis by simp
  qed
  have mem: "a \<in> set (attributes m)" using key by (rule find_attr_member)
  have at: "attributed (attributes m) ?c = Some a" using mem codes by (rule attributed_member)
  have at1: "attributed ?A ?c = Some (if iot_clear_value a then a else a\<lparr>ovalue := v\<rparr>)"
    using at attributed_set_attr_same [OF at, of "\<lambda>x. x\<lparr>ovalue := v\<rparr>"] by simp
  have t1: "run_tick h answers_later ?m1 = Inr ?m2"
    using bridge(1) quiet(1)
    by (simp add: run_tick_def run_push_def answers_later_def Let_def)
  have t2: "run_tick h answers_later ?m2 = Inr ?m3"
    by (simp add: run_tick_def Let_def)
  have t3: "run_tick h answers_later ?m3 = Inr ?m4"
    by (simp add: run_tick_def Let_def)
  have r1: "run_ticks h answers_later 1 ?m1 = Inr ?m2"
    unfolding One_nat_def using t1 by simp
  have r2: "run_ticks h answers_later 2 ?m1 = Inr ?m3"
    using t1 t2 by (simp add: numeral_2_eq_2)
  have r3: "run_ticks h answers_later 3 ?m1 = Inr ?m4"
    using t1 t2 t3 by (simp add: numeral_3_eq_3)
  have cb: "push_callback h err x = ?fin x"
    if "pushes x = 1" "attributes x = ?A" "now x = now m" "otimestamp x = Some (now m)" for x
  proof (cases "iot_clear_value a")
    case True
    with that(2) idle have "list_all ostate_idle (attributes x)" by simp
    from callback_idle [OF this that(1)] True show ?thesis by simp
  next
    case False
    with that(2) have "attributes x = set_attr ?c (\<lambda>x. x\<lparr>ovalue := v\<rparr>) (attributes m)" by simp
    from callback_clears [OF at idle val(4) that(1) this] False that(3,4) show ?thesis by simp
  qed
  have c2: "push_callback h err ?m2 = ?fin ?m2" by (rule cb) simp_all
  have c3: "push_callback h err ?m3 = ?fin ?m3" by (rule cb) simp_all
  have c4: "push_callback h err ?m4 = ?fin ?m4" by (rule cb) simp_all
  have sync: "run_ticks h \<lparr>sync_callbacks = [err], throws = False\<rparr> 1 ?m1 =
                Inr (push_callback h err ?m2)"
  proof -
    let ?x = "?m1\<lparr>ticks := [TickEmit ''state'', TickEmit ''ostate'']\<rparr>"
    have e: "?x\<lparr>pushes := pushes ?x + 1, pushed := pushed ?x @ [?pushd]\<rparr> = ?m2"
      using quiet(1) by (cases m) simp
    have b: "bridge_instance ?x = Some b" using bridge(1) by simp
    have "run_push h \<lparr>sync_callbacks = [err], throws = False\<rparr> ?pushd ?x =
          Inr (push_callback h err ?m2)"
      unfolding run_push_def Let_def e b by (simp add: push_callback_def)
    then show ?thesis
      unfolding One_nat_def by (simp add: run_tick_def Let_def)
  qed
  have last: "push_callback h err ?m4 =
      (if iot_clear_value a
       then m\<lparr>otimestamp := Some (now m),
              emitted := emitted m @ [''state'', ''ostate''],
              pushed := pushed m @ [?pushd]\<rparr>
       else m\<lparr>otimestamp := timestamp_advance h (now m) (Some (now m)),
              emitted := emitted m @ [''state'', ''ostate'', ''ostate''],
              pushed := pushed m @ [?pushd]\<rparr>)"
    unfolding c4 using quiet by (cases m) simp
  have "attributed (attributes ?m1) ?c = Some (if iot_clear_value a then a else a\<lparr>ovalue := v\<rparr>)"
    using at1 by simp
  moreover have "pushes ?m1 = 0" using quiet(1) by simp
  moreover have "otimestamp ?m1 = Some (now m)" by simp
  moreover have "ticks ?m1 = [TickPush ?pushd, TickEmit ''state'', TickEmit ''ostate'']" by simp
  moreover have "attributes ?m4 = attributes ?m1" by simp
  ultimately show ?thesis
    unfolding Let_def m1 using r1 r2 r3 sync c2 c3 c4 last by blast
qed

text \<open>
  Setting the colour of the example Thing to red, and ringing the example Thing whose
  attribute has \<^verbatim>\<open>iot:clear-value\<close>.
\<close>

theorem set_push_clear_witness:
  "find_attr ex_helpers (attributes ex_model) (KString ''color'') ''set'' = Some ex_color \<and>
   distinct (map acode (attributes ex_model)) \<and>
   ''@timestamp'' \<notin> set (map acode (attributes ex_model)) \<and>
   list_all ostate_idle (attributes ex_model) \<and>
   pushes ex_model = 0 \<and> ticks ex_model = [] \<and>
   bridge_instance ex_model = Some ex_bridge \<and> reachable ex_bridge \<and>
   validate_value ex_helpers ex_color (JStr ''red'') = JStr ''red'' \<and>
   \<not> iot_clear_value ex_color \<and>
   (let pushd = [(acode ex_color, remap ex_bridge (acode ex_color) (JStr ''red''))];
        m1 = set_value ex_helpers ex_model (KString ''color'') (JStr ''red'');
        m2 = m1\<lparr>pushes := 1, pushed := pushed ex_model @ [pushd],
                ticks := [TickEmit ''state'', TickEmit ''ostate'']\<rparr>;
        m3 = m2\<lparr>ticks := [TickEmit ''ostate''], emitted := emitted ex_model @ [''state'']\<rparr>;
        m4 = m2\<lparr>ticks := [], emitted := emitted ex_model @ [''state'', ''ostate'']\<rparr>;
        settled = (\<lambda>x. x\<lparr>pushes := 0, attributes := attributes ex_model,
                       otimestamp := timestamp_advance ex_helpers (now ex_model) (Some (now ex_model)),
                       emitted := emitted x @ [''ostate'']\<rparr>)
    in attributed (attributes m1) (acode ex_color) = Some (ex_color\<lparr>ovalue := JStr ''red''\<rparr>) \<and>
       pushes m1 = 0 \<and>
       otimestamp m1 = Some (now ex_model) \<and>
       ticks m1 = [TickPush pushd, TickEmit ''state'', TickEmit ''ostate''] \<and>
       run_ticks ex_helpers answers_later 1 m1 = Inr m2 \<and>
       run_ticks ex_helpers answers_later 2 m1 = Inr m3 \<and>
       run_ticks ex_helpers answers_later 3 m1 = Inr m4 \<and>
       attributes m4 = attributes m1 \<and>
       run_ticks ex_helpers \<lparr>sync_callbacks = [False], throws = False\<rparr> 1 m1 =
         Inr (push_callback ex_helpers False m2) \<and>
       push_callback ex_helpers False m2 = settled m2 \<and>
       push_callback ex_helpers False m3 = settled m3 \<and>
       push_callback ex_helpers False m4 = settled m4 \<and>
       push_callback ex_helpers False m4 =
         ex_model\<lparr>otimestamp := timestamp_advance ex_helpers (now ex_model) (Some (now ex_model)),
           emitted := emitted ex_model @ [''state'', ''ostate'', ''ostate''],
           pushed := pushed ex_model @ [pushd]\<rparr>) \<and>
   find_attr ex_helpers (attributes ex_button) (KString ''ring'') ''set'' = Some ex_ring \<and>
   iot_clear_value ex_ring \<and>
   (let pushd = [(acode ex_ring, remap ex_bridge (acode ex_ring) (JBool True))];
        m1 = set_value ex_helpers ex_button (KString ''ring'') (JBool True);
        m2 = m1\<lparr>pushes := 1, pushed := pushed ex_button @ [pushd],
                ticks := [TickEmit ''state'', TickEmit ''ostate'']\<rparr>;
        m3 = m2\<lparr>ticks := [TickEmit ''ostate''], emitted := emitted ex_button @ [''state'']\<rparr>;
        m4 = m2\<lparr>ticks := [], emitted := emitted ex_button @ [''state'', ''ostate'']\<rparr>;
        settled = (\<lambda>x. x\<lparr>pushes := 0\<rparr>)
    in attributed (attributes m1) (acode ex_ring) = Some ex_ring \<and>
       pushes m1 = 0 \<and>
       otimestamp m1 = Some (now ex_button) \<and>
       ticks m1 = [TickPush pushd, TickEmit ''state'', TickEmit ''ostate''] \<and>
       run_ticks ex_helpers answers_later 1 m1 = Inr m2 \<and>
       run_ticks ex_helpers answers_later 2 m1 = Inr m3 \<and>
       run_ticks ex_helpers answers_later 3 m1 = Inr m4 \<and>
       attributes m4 = attributes m1 \<and>
       run_ticks ex_helpers \<lparr>sync_callbacks = [False], throws = False\<rparr> 1 m1 =
         Inr (push_callback ex_helpers False m2) \<and>
       push_callback ex_helpers False m2 = settled m2 \<and>
       push_callback ex_helpers False m3 = settled m3 \<and>
       push_callback ex_helpers False m4 = settled m4 \<and>
       push_callback ex_helpers False m4 =
         ex_button\<lparr>otimestamp := Some (now ex_button),
           emitted := emitted ex_button @ [''state'', ''ostate''],
           pushed := pushed ex_button @ [pushd]\<rparr>)"
proof -
  have key: "find_attr ex_helpers (attributes ex_model) (KString ''color'') ''set'' = Some ex_color"
    by (simp add: ex_model_def ex_color_def ex_attr_def last_subkey_def replace_slashes_def
        attributed_def Let_def)
  have codes: "distinct (map acode (attributes ex_model))"
    by (simp add: ex_model_def ex_attr_def)
  have nots: "''@timestamp'' \<notin> set (map acode (attributes ex_model))"
    by (simp add: ex_model_def ex_attr_def)
  have idle: "list_all ostate_idle (attributes ex_model)"
    by (simp add: ex_model_def ex_attr_def ostate_idle_def)
  have quiet: "pushes ex_model = 0" "ticks ex_model = []"
    by (simp_all add: ex_model_def)
  have bridge: "bridge_instance ex_model = Some ex_bridge" "reachable ex_bridge"
    by (simp_all add: ex_model_def ex_bridge_def)
  have val: "JStr ''red'' \<noteq> JUndefined"
    "validate_value ex_helpers ex_color (JStr ''red'') = JStr ''red''"
    "JStr ''red'' \<noteq> JUndefined" "JStr ''red'' \<noteq> JNull"
    by (simp_all add: ex_helpers_def)
  have noclear: "\<not> iot_clear_value ex_color"
    by (simp add: ex_color_def ex_attr_def)
  have tsadd: "timestamp_add ex_helpers (now ex_model)
       (AList.update ''@timestamp'' (JStr (now ex_model)) [(acode ex_color, JStr ''red'')]) =
     AList.update ''@timestamp'' (JStr (now ex_model)) [(acode ex_color, JStr ''red'')]"
    by (simp add: ex_helpers_def ex_model_def ex_color_def ex_attr_def dget_def)
  have key': "find_attr ex_helpers (attributes ex_button) (KString ''ring'') ''set'' = Some ex_ring"
    by (simp add: ex_button_def ex_ring_def ex_attr_def last_subkey_def replace_slashes_def
        attributed_def Let_def)
  have codes': "distinct (map acode (attributes ex_button))"
    by (simp add: ex_button_def ex_attr_def)
  have nots': "''@timestamp'' \<notin> set (map acode (attributes ex_button))"
    by (simp add: ex_button_def ex_attr_def)
  have idle': "list_all ostate_idle (attributes ex_button)"
    by (simp add: ex_button_def ex_attr_def ostate_idle_def)
  have quiet': "pushes ex_button = 0" "ticks ex_button = []"
    by (simp_all add: ex_button_def ex_model_def)
  have bridge': "bridge_instance ex_button = Some ex_bridge"
    by (simp add: ex_button_def ex_model_def ex_bridge_def)
  have val': "JBool True \<noteq> JUndefined"
    "validate_value ex_helpers ex_ring (JBool True) = JBool True"
    "JBool True \<noteq> JUndefined" "JBool True \<noteq> JNull"
    by (simp_all add: ex_helpers_def)
  have clear: "iot_clear_value ex_ring"
    by (simp add: ex_ring_def)
  have tsadd': "timestamp_add ex_helpers (now ex_button)
       (AList.update ''@timestamp'' (JStr (now ex_button)) [(acode ex_ring, JBool True)]) =
     AList.update ''@timestamp'' (JStr (now ex_button)) [(acode ex_ring, JBool True)]"
    by (simp add: ex_helpers_def ex_button_def ex_model_def ex_ring_def ex_attr_def dget_def)
  have th: "let pushd = [(acode ex_color, remap ex_bridge (acode ex_color) (JStr ''red''))];
        m1 = set_value ex_helpers ex_model (KString ''color'') (JStr ''red'');
        m2 = m1\<lparr>pushes := 1, pushed := pushed ex_model @ [pushd],
                ticks := [TickEmit ''state'', TickEmit ''ostate'']\<rparr>;
        m3 = m2\<lparr>ticks := [TickEmit ''ostate''], emitted := emitted ex_model @ [''state'']\<rparr>;
        m4 = m2\<lparr>ticks := [], emitted := emitted ex_model @ [''state'', ''ostate'']\<rparr>;
        settled = (\<lambda>x. x\<lparr>pushes := 0, attributes := attributes ex_model,
                       otimestamp := timestamp_advance ex_helpers (now ex_model) (Some (now ex_model)),
                       emitted := emitted x @ [''ostate'']\<rparr>)
    in attributed (attributes m1) (acode ex_color) = Some (ex_color\<lparr>ovalue := JStr ''red''\<rparr>) \<and>
       pushes m1 = 0 \<and>
       otimestamp m1 = Some (now ex_model) \<and>
       ticks m1 = [TickPush pushd, TickEmit ''state'', TickEmit ''ostate''] \<and>
       run_ticks ex_helpers answers_later 1 m1 = Inr m2 \<and>
       run_ticks ex_helpers answers_later 2 m1 = Inr m3 \<and>
       run_ticks ex_helpers answers_later 3 m1 = Inr m4 \<and>
       attributes m4 = attributes m1 \<and>
       run_ticks ex_helpers \<lparr>sync_callbacks = [False], throws = False\<rparr> 1 m1 =
         Inr (push_callback ex_helpers False m2) \<and>
       push_callback ex_helpers False m2 = settled m2 \<and>
       push_callback ex_helpers False m3 = settled m3 \<and>
       push_callback ex_helpers False m4 = settled m4 \<and>
       push_callback ex_helpers False m4 =
         ex_model\<lparr>otimestamp := timestamp_advance ex_helpers (now ex_model) (Some (now ex_model)),
           emitted := emitted ex_model @ [''state'', ''ostate'', ''ostate''],
           pushed := pushed ex_model @ [pushd]\<rparr>"
    using set_push_clear [OF key codes nots idle quiet bridge val tsadd, of False]
    by (simp only: noclear if_False)
  have th': "let pushd = [(acode ex_ring, remap ex_bridge (acode ex_ring) (JBool True))];
        m1 = set_value ex_helpers ex_button (KString ''ring'') (JBool True);
        m2 = m1\<lparr>pushes := 1, pushed := pushed ex_button @ [pushd],
                ticks := [TickEmit ''state'', TickEmit ''ostate'']\<rparr>;
        m3 = m2\<lparr>ticks := [TickEmit ''ostate''], emitted := emitted ex_button @ [''state'']\<rparr>;
        m4 = m2\<lparr>ticks := [], emitted := emitted ex_button @ [''state'', ''ostate'']\<rparr>;
        settled = (\<lambda>x. x\<lparr>pushes := 0\<rparr>)
    in attributed (attributes m1) (acode ex_ring) = Some ex_ring \<and>
       pushes m1 = 0 \<and>
       otimestamp m1 = Some (now ex_button) \<and>
       ticks m1 = [TickPush pushd, TickEmit ''state'', TickEmit ''ostate''] \<and>
       run_ticks ex_helpers answers_later 1 m1 = Inr m2 \<and>
       run_ticks ex_helpers answers_later 2 m1 = Inr m3 \<and>
       run_ticks ex_helpers answers_later 3 m1 = Inr m4 \<and>
       attributes m4 = attributes m1 \<and>
       run_ticks ex_helpers \<lparr>sync_callbacks = [False], throws = False\<rparr> 1 m1 =
         Inr (push_callback ex_helpers False m2) \<and>
       push_callback ex_helpers False m2 = settled m2 \<and>
       push_callback ex_helpers False m3 = settled m3 \<and>
       push_callback ex_helpers False m4 = settled m4 \<and>
       push_callback ex_helpers False m4 =
         ex_button\<lparr>otimestamp := Some (now ex_button),
           emitted := emitted ex_button @ [''state'', ''ostate''],
           pushed := pushed ex_button @ [pushd]\<rparr>"
    using set_push_clear [OF key' codes' nots' idle' quiet' bridge' bridge(2) val' tsadd', of False]
    by (simp only: clear if_True)
  show ?thesis
    using key codes nots idle quiet bridge val(2) noclear th key' clear th' by blast
qed

lemma ex_button_set:
  "set_value ex_helpers ex_button (KString ''ring'') (JBool True) =
     ex_button\<lparr>otimestamp := Some (now ex_button),
       ticks := [TickPush [(''ring'', JBool True)], TickEmit ''state'', TickEmit ''ostate'']\<rparr>"
  by (simp add: set_value_def last_subkey_def replace_slashes_def attributed_def Let_def
      update_def update_ostate_def update_ostate_apply_def dflt_def no_paramd_def
      push_attributes_def unmark_ochanged_def dget_def
      ex_button_def ex_model_def ex_attr_def ex_helpers_def)

lemma ex_button_ticks:
  "run_ticks ex_helpers answers_later 3
     (ex_button\<lparr>otimestamp := Some (now ex_button),
        ticks := [TickPush [(''ring'', JBool True)], TickEmit ''state'', TickEmit ''ostate'']\<rparr>) =
   Inr (ex_button\<lparr>otimestamp := Some (now ex_button), ticks := [], pushes := 1,
          pushed := [[(''ring'', JBool True)]], emitted := [''state'', ''ostate'']\<rparr>)"
  by (simp add: numeral_3_eq_3 run_tick_def run_push_def answers_later_def Let_def
      ex_button_def ex_model_def)

text \<open>
  C2 as stated fails for an attribute with \<^verbatim>\<open>iot:clear-value\<close>.  On the example Thing
  with such an attribute, bound to a reachable Bridge and idle, \<^verbatim>\<open>set("ring", true)\<close>
  leaves the output value null (the value goes into the push only); the push is made
  and the counter goes to 1; and when it completes, the counter is 0 but nothing is
  emitted and the output timestamp stays.
\<close>

theorem set_clear_value_counterexample:
  "(let m1 = set_value ex_helpers ex_button (KString ''ring'') (JBool True)
    in iot_clear_value (hd (attributes ex_button)) \<and>
       map ovalue (attributes m1) = [JNull] \<and>
       (case run_ticks ex_helpers answers_later 3 m1 of
          Inl e \<Rightarrow> False
        | Inr m3 \<Rightarrow>
            pushes m3 = 1 \<and> pushed m3 = [[(''ring'', JBool True)]] \<and>
            emitted m3 = [''state'', ''ostate''] \<and>
            pushes (push_callback ex_helpers False m3) = 0 \<and>
            emitted (push_callback ex_helpers False m3) = emitted m3 \<and>
            otimestamp (push_callback ex_helpers False m3) = otimestamp m3))"
  unfolding Let_def ex_button_set ex_button_ticks
  by (simp add: push_callback_def push_settle_def clear_ostate_def ostate_idle_def Let_def
      ex_button_def ex_model_def ex_attr_def)


section \<open>Collections\<close>

lemma splice_loop_filter_from:
  "splice_loop P i xs = take i xs @ filter (\<lambda>x. \<not> P x) (drop i xs)"
proof (induction P i xs rule: splice_loop.induct)
  case (1 P i xs)
  show ?case
  proof (cases "i < length xs")
    case False
    then show ?thesis by (subst splice_loop.simps) simp
  next
    case True
    then have d: "drop i xs = xs ! i # drop (Suc i) xs" by (simp add: Cons_nth_drop_Suc)
    show ?thesis
    proof (cases "P (xs ! i)")
      case True
      with \<open>i < length xs\<close> 1(1) d show ?thesis
        by (subst splice_loop.simps) (simp add: min_def)
    next
      case False
      with \<open>i < length xs\<close> 1(2) d show ?thesis
        by (subst splice_loop.simps) (simp add: take_Suc_conv_app_nth)
    qed
  qed
qed

lemma splice_loop_filter: "splice_loop P 0 xs = filter (\<lambda>x. \<not> P x) xs"
  by (simp add: splice_loop_filter_from)

lemma push_member: "thing \<in> set (items ta) \<Longrightarrow> push ta thing emit_pushed emit_new = ta"
  by (simp add: push_def list_ex_iff)

text \<open>
  C3, as the code has it.  Membership is by reference: pushing a Thing object that is
  already an element of the collection changes nothing (no element, no event, no
  replayed command).
\<close>

theorem push_same_thing_noop:
  assumes "thing \<in> set (items ta)"
  shows "push ta thing emit_pushed emit_new = ta"
  using assms by (rule push_member)

text \<open>Pushing Thing 0 onto the collection that holds it.\<close>

theorem push_same_thing_noop_witness:
  "(0::nat) \<in> set (items ex_array) \<and> push ex_array 0 True True = ex_array"
proof -
  have m: "(0::nat) \<in> set (items ex_array)" by (simp add: ex_array_def new_thing_array_def)
  from push_same_thing_noop [OF m] m show ?thesis by simp
qed

text \<open>
  C3 as stated fails: membership is not keyed by the thing id.  Thing 1 has the id of
  Thing 0, which is a member, and pushing it adds a second element.
\<close>

theorem push_same_id_counterexample:
  "ex_thing_id 1 \<in> set (map ex_thing_id (items ex_array)) \<and>
   items (push ex_array 1 True True) = [0, 1] \<and>
   length (items (push ex_array 1 True True)) \<noteq> length (items ex_array)"
  by (simp add: ex_thing_id_def ex_array_def new_thing_array_def push_def persist_pre_def
      persist_post_def apply_pds_def things_changed_def Let_def)

lemma oidd_of_set_aux:
  "set (fold (\<lambda>t oidd. oidd_put (thing_id t) oidd) xs acc) =
     (thing_id ` set xs - {''__proto__''}) \<union> set acc"
  by (induction xs arbitrary: acc) (auto simp add: oidd_put_def)

lemma oidd_of_set: "set (oidd_of thing_id xs) = thing_id ` set xs - {''__proto__''}"
  by (simp add: oidd_of_def oidd_of_set_aux)

lemma oidd_has_own:
  "k \<notin> set Object_prototype_keys \<Longrightarrow> oidd_has oidd k = (k \<in> set oidd)"
  by (simp add: oidd_has_def)

lemma scan_src_members:
  assumes "\<forall>t\<in>set src. test t \<longrightarrow> t \<in> set (items out)"
  shows "fst (scan_src thing_id test src out oidd) = out \<and>
         set (snd (scan_src thing_id test src out oidd)) =
           set oidd - thing_id ` {t \<in> set src. test t}"
  using assms
proof (induction src arbitrary: oidd)
  case Nil
  then show ?case by simp
next
  case (Cons thing rest)
  then show ?case
    by (auto simp add: push_member oidd_has_def)
qed

lemma scan_srcs_members:
  assumes "\<forall>t\<in>set (concat srcs). test t \<longrightarrow> t \<in> set (items out)"
  shows "fst (scan_srcs thing_id test srcs out oidd) = out \<and>
         set (snd (scan_srcs thing_id test srcs out oidd)) =
           set oidd - thing_id ` {t \<in> set (concat srcs). test t}"
  using assms
proof (induction srcs arbitrary: oidd)
  case Nil
  then show ?case by simp
next
  case (Cons src srcs)
  have a: "\<forall>t\<in>set src. test t \<longrightarrow> t \<in> set (items out)" using Cons.prems by simp
  obtain out1 oidd1 where s: "scan_src thing_id test src out oidd = (out1, oidd1)"
    by (cases "scan_src thing_id test src out oidd")
  from scan_src_members [OF a, of thing_id oidd] s
  have o: "out1 = out" and d: "set oidd1 = set oidd - thing_id ` {t \<in> set src. test t}" by simp_all
  have b: "\<forall>t\<in>set (concat srcs). test t \<longrightarrow> t \<in> set (items out)" using Cons.prems by simp
  from Cons.IH [OF b, of oidd1] s o d show ?case by auto
qed

text \<open>
  C4.  Reconciling a derived collection with sources whose members are exactly its own
  members adds nothing and removes nothing: the collection keeps its elements in their
  order, and the only effect is the notification.  The ids of the members are ids as
  \<^verbatim>\<open>bind_bridge\<close> makes them (they contain a colon): none is the name of a member of
  \<^verbatim>\<open>Object.prototype\<close>.
\<close>

theorem reconcile_idempotent:
  assumes "set (concat srcs) = set (items out_items)"
      and "\<forall>t\<in>set (items out_items). thing_id t \<notin> set Object_prototype_keys"
  shows "reconcile_added thing_id (\<lambda>t. True) srcs out_items = [] \<and>
         reconcile_removed thing_id (\<lambda>t. True) srcs out_items = [] \<and>
         merger thing_id srcs out_items = things_changed out_items \<and>
         items (merger thing_id srcs out_items) = items out_items"
proof -
  let ?oidd = "oidd_of thing_id (items out_items)"
  obtain out1 oidd1 where s: "scan_srcs thing_id (\<lambda>t. True) srcs out_items ?oidd = (out1, oidd1)"
    by (cases "scan_srcs thing_id (\<lambda>t. True) srcs out_items ?oidd")
  have "\<forall>t\<in>set (concat srcs). True \<longrightarrow> t \<in> set (items out_items)" using assms(1) by simp
  from scan_srcs_members [OF this, of thing_id ?oidd] s
  have o: "out1 = out_items" and "set oidd1 = set ?oidd - thing_id ` {t \<in> set (concat srcs). True}"
    by simp_all
  moreover have "{t \<in> set (concat srcs). True} = set (items out_items)" using assms(1) by simp
  ultimately have "set oidd1 = {}" by (auto simp add: oidd_of_set)
  then have e: "oidd1 = []" by simp
  have none: "filter (\<lambda>t. oidd_has [] (thing_id t)) (items out_items) = []"
    using assms(2) by (simp add: filter_empty_conv oidd_has_def)
  have all: "filter (\<lambda>t. \<not> oidd_has [] (thing_id t)) (items out_items) = items out_items"
    using assms(2) by (simp add: filter_id_conv oidd_has_def)
  have r: "remove_unconfirmed thing_id [] out_items = out_items"
    by (simp add: remove_unconfirmed_def splice_loop_filter all)
  show ?thesis
    using s o e r none
    by (simp add: reconcile_added_def reconcile_removed_def merger_def reconcile_def things_changed_def)
qed

text \<open>A merged view of Things 0 and 1, reconciled with its two sources [0] and [1].\<close>

theorem reconcile_idempotent_witness:
  "set (concat [[0], [1]]) = set (items (ex_array\<lparr>items := [0, 1]\<rparr>)) \<and>
   ex_thing_id 0 \<notin> set Object_prototype_keys \<and>
   ex_thing_id 1 \<notin> set Object_prototype_keys \<and>
   reconcile_added ex_thing_id (\<lambda>t. True) [[0], [1]] (ex_array\<lparr>items := [0, 1]\<rparr>) = [] \<and>
   reconcile_removed ex_thing_id (\<lambda>t. True) [[0], [1]] (ex_array\<lparr>items := [0, 1]\<rparr>) = [] \<and>
   items (merger ex_thing_id [[0], [1]] (ex_array\<lparr>items := [0, 1]\<rparr>)) = [0, 1]"
proof -
  have m: "set (concat [[0], [1]]) = set (items (ex_array\<lparr>items := [0, 1]\<rparr>))"
    by (auto simp add: ex_array_def)
  have ids: "\<forall>t\<in>set (items (ex_array\<lparr>items := [0, 1]\<rparr>)). ex_thing_id t \<notin> set Object_prototype_keys"
    by (simp add: ex_thing_id_def Object_prototype_keys_def)
  have id0: "ex_thing_id 0 \<notin> set Object_prototype_keys"
    and id1: "ex_thing_id 1 \<notin> set Object_prototype_keys"
    by (simp_all add: ex_thing_id_def Object_prototype_keys_def)
  from reconcile_idempotent [OF m ids] m id0 id1 show ?thesis
    by (simp add: things_changed_def)
qed








section \<open>Recorded commands\<close>

lemma persist_command_log:
  assumes "persistds ta = Some pds"
  shows "persistds (persist_command f av k ta) =
           Some ((if k = Some KEY_SETTER then filter (\<lambda>pd. \<not> is_setter pd) pds else pds) @
                 [\<lparr>pd_f = f, pd_av = av, pd_key = k\<rparr>])"
  using assms by (simp add: persist_command_def splice_loop_filter is_setter_def)

lemma push_persistds [simp]: "persistds (push ta thing ep en) = persistds ta"
  by (simp add: push_def Let_def persist_pre_def persist_post_def apply_pds_def things_changed_def
      split: option.splits)

lemma bulk_log:
  assumes "persistds ta = Some pds" "bulk f av ta = Inr ta1"
  shows "persistds ta1 =
           Some ((if key_of f = Some KEY_SETTER then filter (\<lambda>pd. \<not> is_setter pd) pds else pds) @
                 [\<lparr>pd_f = f, pd_av = av, pd_key = key_of f\<rparr>])"
proof -
  from assms(2) have "ta1 = persist_command f av (key_of f) (apply_command f av ta)"
    by (simp add: bulk_def split: if_splits)
  moreover have "persistds (apply_command f av ta) = Some pds"
    using assms(1) by (simp add: apply_command_def)
  ultimately show ?thesis using persist_command_log by simp
qed

lemma last_only_snoc [simp]: "last_only (xs @ [x]) = [x]"
  by (cases xs) (simp_all add: last_only_def)

lemma bulks_single:
  "bulks [(f, av)] ta = (case bulk f av ta of Inl e \<Rightarrow> ta | Inr ta1 \<Rightarrow> ta1)"
  by simp

lemma steps_log:
  assumes "persistds ta = Some pds"
  shows "persistds (steps ss ta) = Some (fold record_pd (map pd_of (issued ss ta)) pds)"
  using assms
proof (induction ss ta arbitrary: pds rule: steps.induct)
  case (1 ta)
  then show ?case by simp
next
  case (2 f av rest ta)
  show ?case
  proof (cases "bulk f av ta")
    case (Inl e)
    with 2 show ?thesis by simp
  next
    case (Inr ta1)
    from bulk_log [OF "2.prems" Inr]
    have "persistds ta1 = Some (record_pd (pd_of (f, av)) pds)"
      by (simp add: record_pd_def is_setter_def pd_of_def)
    from "2.IH" [of "record_pd (pd_of (f, av)) pds"] this Inr
    show ?thesis by simp
  qed
next
  case (3 thing emit_pushed emit_new rest ta)
  then show ?case by simp
qed

lemma fold_record_others:
  "filter (\<lambda>pd. \<not> is_setter pd) (fold record_pd xs pds) = filter (\<lambda>pd. \<not> is_setter pd) (pds @ xs)"
  by (induction xs arbitrary: pds) (simp_all add: record_pd_def)

lemma fold_record_setters:
  assumes "length (filter is_setter pds) \<le> 1"
  shows "filter is_setter (fold record_pd xs pds) = last_only (filter is_setter (pds @ xs))"
proof (induction xs rule: rev_induct)
  case Nil
  from assms show ?case
    by (cases "filter is_setter pds") (simp_all add: last_only_def)
next
  case (snoc x xs)
  have "last_only (filter is_setter pds @ filter is_setter xs @ [x]) = [x]"
    using last_only_snoc [of "filter is_setter pds @ filter is_setter xs" x] by simp
  with snoc show ?case by (simp add: record_pd_def)
qed

lemma fold_record_set: "set (fold record_pd xs pds) \<subseteq> set pds \<union> set xs"
  by (induction xs rule: rev_induct) (auto simp add: record_pd_def split: if_splits)

lemma last_only_length: "length (last_only xs) \<le> 1"
  by (cases xs) (simp_all add: last_only_def)

lemma last_only_map: "last_only (map f xs) = map f (last_only xs)"
  by (cases xs) (simp_all add: last_only_def last_map)

lemma in_PRE_KEYS_not_setter: "in_PRE_KEYS pd \<Longrightarrow> \<not> is_setter pd"
  by (auto simp add: in_PRE_KEYS_def is_setter_def PRE_KEYS_def split: option.splits)

text \<open>The entries recorded under \<^verbatim>\<open>KEY_SETTER\<close> are those of \<^verbatim>\<open>set\<close> and \<^verbatim>\<open>update\<close>.\<close>

lemma is_setter_pd_of: "is_setter (pd_of c) = (fst c = Cmd_set \<or> fst c = Cmd_update)"
  by (simp add: is_setter_def pd_of_def key_of_def)

lemma is_setter_command:
  "pd_key pd = key_of (pd_f pd) \<Longrightarrow> is_setter pd = (pd_f pd = Cmd_set \<or> pd_f pd = Cmd_update)"
  by (simp add: is_setter_def key_of_def)

lemma setter_command_iff:
  "setter_command x = (fst (snd x) = Cmd_set \<or> fst (snd x) = Cmd_update)"
  by (simp add: setter_command_def key_of_def)

lemma pd_of_inverse: "map (\<lambda>pd. (pd_f pd, pd_av pd)) (map pd_of cs) = cs"
  by (induction cs) (simp_all add: pd_of_def)

lemma filter_pd_of:
  "filter is_setter (map pd_of cs) = map pd_of (filter (\<lambda>c. fst c = Cmd_set \<or> fst c = Cmd_update) cs)"
  by (induction cs) (simp_all add: is_setter_pd_of)

lemma filter_not_pd_of:
  "filter (\<lambda>pd. \<not> is_setter pd) (map pd_of cs) =
     map pd_of (filter (\<lambda>c. fst c \<noteq> Cmd_set \<and> fst c \<noteq> Cmd_update) cs)"
  by (induction cs) (simp_all add: is_setter_pd_of)

lemma push_applied:
  "applied (push ta thing ep en) =
     applied ta @
     (if thing \<in> set (items ta) then []
      else (case persistds ta of None \<Rightarrow> []
            | Some pds \<Rightarrow> map (\<lambda>pd. (thing, pd_f pd, pd_av pd))
                 (filter in_PRE_KEYS pds @ filter (\<lambda>pd. \<not> in_PRE_KEYS pd) pds)))"
  by (simp add: push_def Let_def persist_pre_def persist_post_def apply_pds_def things_changed_def
      list_ex_iff split: option.splits)

lemma replay_setters:
  assumes "persistds ta = Some pds"
      and "\<forall>pd\<in>set pds. pd_key pd = key_of (pd_f pd)"
      and "length (filter is_setter pds) \<le> 1"
  shows "length (filter setter_command (drop (length (applied ta)) (applied (push ta thing ep en)))) \<le> 1"
proof -
  have eq: "\<And>ps. set ps \<subseteq> set pds \<Longrightarrow>
          filter setter_command (map (\<lambda>pd. (thing, pd_f pd, pd_av pd)) ps) =
          map (\<lambda>pd. (thing, pd_f pd, pd_av pd)) (filter is_setter ps)"
  proof -
    fix ps show "set ps \<subseteq> set pds \<Longrightarrow>
          filter setter_command (map (\<lambda>pd. (thing, pd_f pd, pd_av pd)) ps) =
          map (\<lambda>pd. (thing, pd_f pd, pd_av pd)) (filter is_setter ps)"
      using assms(2) by (induction ps) (auto simp add: setter_command_def is_setter_def)
  qed
  have pre: "filter is_setter (filter in_PRE_KEYS pds) = []"
    by (simp add: filter_empty_conv in_PRE_KEYS_not_setter)
  have post: "filter is_setter (filter (\<lambda>pd. \<not> in_PRE_KEYS pd) pds) = filter is_setter pds"
    using in_PRE_KEYS_not_setter by (induction pds) auto
  show ?thesis
  proof (cases "thing \<in> set (items ta)")
    case True
    then show ?thesis by (simp add: push_applied)
  next
    case False
    then show ?thesis
      using assms(1,3) eq [of "filter in_PRE_KEYS pds"] eq [of "filter (\<lambda>pd. \<not> in_PRE_KEYS pd) pds"]
        pre post
      by (simp add: push_applied)
  qed
qed

text \<open>
  C5.  Take a new persisting collection and any sequence of bulk operations and pushes.
  Its recorded commands then hold at most one \<^verbatim>\<open>set\<close> or \<^verbatim>\<open>update\<close>: the last one
  issued, with its arguments, every earlier one being removed when a later one is
  recorded.  Every other command issued is there, with its arguments, in the order of
  issue.  And the replay onto a Thing that joins applies at most one \<^verbatim>\<open>set\<close> or
  \<^verbatim>\<open>update\<close>.
\<close>

theorem persisted_setter_superseded:
  "\<exists>pds. persistds (steps ss (new_thing_array True)) = Some pds \<and>
     length (filter (\<lambda>pd. pd_f pd = Cmd_set \<or> pd_f pd = Cmd_update) pds) \<le> 1 \<and>
     map (\<lambda>pd. (pd_f pd, pd_av pd)) (filter (\<lambda>pd. pd_f pd = Cmd_set \<or> pd_f pd = Cmd_update) pds) =
       last_only (filter (\<lambda>c. fst c = Cmd_set \<or> fst c = Cmd_update)
                    (issued ss (new_thing_array True))) \<and>
     map (\<lambda>pd. (pd_f pd, pd_av pd))
         (filter (\<lambda>pd. pd_f pd \<noteq> Cmd_set \<and> pd_f pd \<noteq> Cmd_update) pds) =
       filter (\<lambda>c. fst c \<noteq> Cmd_set \<and> fst c \<noteq> Cmd_update) (issued ss (new_thing_array True)) \<and>
     length (filter (\<lambda>x. fst (snd x) = Cmd_set \<or> fst (snd x) = Cmd_update)
        (drop (length (applied (steps ss (new_thing_array True))))
           (applied (push (steps ss (new_thing_array True)) thing emit_pushed emit_new)))) \<le> 1"
proof -
  let ?ta = "new_thing_array True"
  let ?cs = "issued ss ?ta"
  let ?pds = "fold record_pd (map pd_of ?cs) []"
  let ?S = "\<lambda>pd. pd_f pd = Cmd_set \<or> pd_f pd = Cmd_update"
  let ?N = "\<lambda>pd. pd_f pd \<noteq> Cmd_set \<and> pd_f pd \<noteq> Cmd_update"
  let ?proj = "\<lambda>pd. (pd_f pd, pd_av pd)"
  have log: "persistds (steps ss ?ta) = Some ?pds"
    using steps_log [of ?ta "[]" ss] by (simp add: new_thing_array_def)
  have keys: "\<forall>pd\<in>set ?pds. pd_key pd = key_of (pd_f pd)"
    using fold_record_set [of "map pd_of ?cs" "[]"] by (auto simp add: pd_of_def)
  have s_eq: "filter ?S ?pds = filter is_setter ?pds"
    using keys by (intro filter_cong refl) (simp add: is_setter_command)
  have n_eq: "filter ?N ?pds = filter (\<lambda>pd. \<not> is_setter pd) ?pds"
    using keys by (intro filter_cong refl) (simp add: is_setter_command)
  have setters: "filter is_setter ?pds =
      map pd_of (last_only (filter (\<lambda>c. fst c = Cmd_set \<or> fst c = Cmd_update) ?cs))"
    using fold_record_setters [of "[]" "map pd_of ?cs"]
    by (simp add: filter_pd_of last_only_map)
  have one: "length (filter is_setter ?pds) \<le> 1"
    unfolding setters using last_only_length [of "filter (\<lambda>c. fst c = Cmd_set \<or> fst c = Cmd_update) ?cs"]
    by simp
  have others: "filter (\<lambda>pd. \<not> is_setter pd) ?pds =
      map pd_of (filter (\<lambda>c. fst c \<noteq> Cmd_set \<and> fst c \<noteq> Cmd_update) ?cs)"
    using fold_record_others [of "map pd_of ?cs" "[]"] by (simp add: filter_not_pd_of)
  have c1: "length (filter ?S ?pds) \<le> 1" unfolding s_eq by (rule one)
  have c2: "map ?proj (filter ?S ?pds) =
      last_only (filter (\<lambda>c. fst c = Cmd_set \<or> fst c = Cmd_update) ?cs)"
    unfolding s_eq setters by (rule pd_of_inverse)
  have c3: "map ?proj (filter ?N ?pds) = filter (\<lambda>c. fst c \<noteq> Cmd_set \<and> fst c \<noteq> Cmd_update) ?cs"
    unfolding n_eq others by (rule pd_of_inverse)
  have sc: "setter_command = (\<lambda>x. fst (snd x) = Cmd_set \<or> fst (snd x) = Cmd_update)"
    by (rule ext) (rule setter_command_iff)
  have c4: "length (filter (\<lambda>x. fst (snd x) = Cmd_set \<or> fst (snd x) = Cmd_update)
        (drop (length (applied (steps ss ?ta)))
           (applied (push (steps ss ?ta) thing emit_pushed emit_new)))) \<le> 1"
    using replay_setters [OF log keys one, of thing emit_pushed emit_new] unfolding sc .
  from log c1 c2 c3 c4 show ?thesis by blast
qed

text \<open>
  On a new persisting collection: \<^verbatim>\<open>set("on", true)\<close>, \<^verbatim>\<open>name("lamp")\<close>,
  \<^verbatim>\<open>set("on", false)\<close>.  The recorded commands are the name and the second \<^verbatim>\<open>set\<close>, and
  a Thing that joins gets these two.
\<close>

theorem persisted_setter_superseded_witness:
  "persistds (steps [Bulk Cmd_set [JStr ''on'', JBool True], Bulk Cmd_name [JStr ''lamp''],
                     Bulk Cmd_set [JStr ''on'', JBool False]] (new_thing_array True)) =
     Some [\<lparr>pd_f = Cmd_name, pd_av = [JStr ''lamp''], pd_key = None\<rparr>,
           \<lparr>pd_f = Cmd_set, pd_av = [JStr ''on'', JBool False], pd_key = Some KEY_SETTER\<rparr>] \<and>
   issued [Bulk Cmd_set [JStr ''on'', JBool True], Bulk Cmd_name [JStr ''lamp''],
           Bulk Cmd_set [JStr ''on'', JBool False]] (new_thing_array True) =
     [(Cmd_set, [JStr ''on'', JBool True]), (Cmd_name, [JStr ''lamp'']),
      (Cmd_set, [JStr ''on'', JBool False])] \<and>
   applied (push (steps [Bulk Cmd_set [JStr ''on'', JBool True], Bulk Cmd_name [JStr ''lamp''],
                         Bulk Cmd_set [JStr ''on'', JBool False]] (new_thing_array True)) 0 True True) =
     [(0, Cmd_name, [JStr ''lamp'']), (0, Cmd_set, [JStr ''on'', JBool False])]"
  using persisted_setter_superseded
    [of "[Bulk Cmd_set [JStr ''on'', JBool True], Bulk Cmd_name [JStr ''lamp''],
          Bulk Cmd_set [JStr ''on'', JBool False]]" 0 True True]
  by (simp add: new_thing_array_def bulk_def first_arg_def key_of_def apply_command_def
      persist_command_def splice_loop_filter push_def persist_pre_def persist_post_def
      apply_pds_def things_changed_def in_PRE_KEYS_def PRE_KEYS_def Let_def)


end
